theory Spec2Isabelle
  imports Complex_Main "HOL-Library.Word" "HOL-Library.List_Lexorder"
begin

unbundle bit_operations_syntax

section \<open>Platform constants and external interfaces\<close>

text \<open>
  The development follows \<^verbatim>\<open>rp/src/emul.c\<close>. C \<^verbatim>\<open>char\<close> and \<^verbatim>\<open>uint8_t\<close> are
  8-bit bytes; both are represented by \<^typ>\<open>char\<close>, so that file contents and C strings
  share one type. Flash offsets are \<^verbatim>\<open>uint32_t\<close>, represented by 32-bit words
  whose addition wraps. Sizes (\<^verbatim>\<open>size_t\<close>, \<^verbatim>\<open>UINT\<close>, \<^verbatim>\<open>FSIZE_t\<close>) are
  natural numbers: a file on the card is far smaller than \<open>2 ^ 32\<close> bytes.
\<close>

type_synonym uint8_t = char
type_synonym uint32_t = "32 word"

text \<open>
  Modelled from the spec: the platform constants \<^verbatim>\<open>FLASH_SECTOR_SIZE\<close>,
  \<^verbatim>\<open>FLASH_PAGE_SIZE\<close> and \<^verbatim>\<open>XIP_BASE\<close> (SDK headers) and the linker symbol
  \<^verbatim>\<open>_rom_temp_start\<close> are not declared in this repository. The spec calls them
  fixed platform constants (erase sector, programming page, base address), so they are
  parameters of the model.
\<close>

record platform =
  FLASH_SECTOR_SIZE :: nat
  FLASH_PAGE_SIZE :: nat
  XIP_BASE :: uint32_t
  rom_temp_start :: uint32_t

text \<open>The values of the RP2040 SDK, used for concrete instances.\<close>

definition rp2040 :: platform where
  "rp2040 = \<lparr>FLASH_SECTOR_SIZE = 4096, FLASH_PAGE_SIZE = 256,
     XIP_BASE = 0x10000000, rom_temp_start = 0x10100000\<rparr>"

text \<open>
  Modelled from the spec: the result code \<^verbatim>\<open>FRESULT\<close> of the file-system driver
  (\<^verbatim>\<open>ff.h\<close>, not in this repository). The code only compares it with \<^verbatim>\<open>FR_OK\<close>
  and passes it on, so every other code is \<open>FR_ERR n\<close>.
\<close>

datatype FRESULT = FR_OK | FR_ERR nat

text \<open>
  Modelled from the spec: the file object of the storage driver (file
  open/read/seek/close with byte-exact reads and end-of-file detection by a zero-length
  read). \<open>ferrs\<close> schedules the result codes of the coming transfer calls on the file
  (read, seek, gets), one per call; when the schedule is exhausted calls succeed.
\<close>

record FIL =
  fdata :: "uint8_t list"
  fptr :: nat
  ferrs :: "FRESULT list"

definition f_size :: "FIL \<Rightarrow> nat" where
  "f_size fp = length (fdata fp)"

definition f_tell :: "FIL \<Rightarrow> nat" where
  "f_tell fp = fptr fp"

definition next_result :: "FIL \<Rightarrow> FRESULT \<times> FIL" where
  "next_result fp =
     (case ferrs fp of [] \<Rightarrow> (FR_OK, fp) | r # rs \<Rightarrow> (r, fp\<lparr>ferrs := rs\<rparr>))"

text \<open>\<open>f_read fp btr\<close> returns the result code, the bytes read (at most \<open>btr\<close>,
  fewer only at the end of the file) and the advanced file object.\<close>

definition f_read :: "FIL \<Rightarrow> nat \<Rightarrow> FRESULT \<times> uint8_t list \<times> FIL" where
  "f_read fp btr =
     (case next_result fp of (r, fp1) \<Rightarrow>
        if r \<noteq> FR_OK then (r, [], fp1)
        else (let got = take btr (drop (fptr fp1) (fdata fp1))
              in (FR_OK, got, fp1\<lparr>fptr := fptr fp1 + length got\<rparr>)))"

definition f_lseek :: "FIL \<Rightarrow> nat \<Rightarrow> FRESULT \<times> FIL" where
  "f_lseek fp ofs =
     (case next_result fp of (r, fp1) \<Rightarrow>
        if r \<noteq> FR_OK then (r, fp1)
        else (FR_OK, fp1\<lparr>fptr := min ofs (length (fdata fp1))\<rparr>))"

text \<open>
  Modelled from the spec: the card as the code sees it. \<open>files\<close> gives, for a path,
  what \<^verbatim>\<open>f_open\<close> returns (result code, content, schedule of transfer results);
  \<open>dirs\<close> gives what \<^verbatim>\<open>f_opendir\<close> returns and the results of the successive
  \<^verbatim>\<open>f_readdir\<close> calls (see the catalog section).
\<close>

record FILINFO =
  fname :: string
  fattrib :: "8 word"

record fatfs =
  files :: "string \<Rightarrow> FRESULT \<times> uint8_t list \<times> FRESULT list"
  dirs :: "string \<Rightarrow> FRESULT \<times> (FRESULT \<times> FILINFO) list"

definition f_open :: "fatfs \<Rightarrow> string \<Rightarrow> FRESULT \<times> FIL" where
  "f_open fs filename =
     (case files fs filename of (res, content, errs) \<Rightarrow>
        (res, \<lparr>fdata = content, fptr = 0, ferrs = errs\<rparr>))"

text \<open>
  Modelled from the spec: the nonvolatile-memory primitives (erase(offset, length),
  program(offset, buffer, length), called with interrupts disabled) belong to the SDK.
  The model records every call, in order, with its arguments.
\<close>

datatype flash_op =
    save_and_disable_interrupts
  | flash_range_erase uint32_t nat
  | flash_range_program uint32_t "uint8_t list"
  | restore_interrupts

text \<open>
  Modelled from the spec: the macro \<^verbatim>\<open>CHANGE_ENDIANESS_BLOCK16\<close> (\<^verbatim>\<open>memfunc.h\<close>, not
  in this repository) performs a 16-bit-word endianness swap over the chunk: the two
  bytes of every 16-bit word change places; a trailing odd byte is not part of a word.
\<close>

fun CHANGE_ENDIANESS_BLOCK16 :: "uint8_t list \<Rightarrow> uint8_t list" where
  "CHANGE_ENDIANESS_BLOCK16 (a # b # rest) = b # a # CHANGE_ENDIANESS_BLOCK16 rest"
| "CHANGE_ENDIANESS_BLOCK16 rest = rest"


section \<open>Flash provisioner: \<^verbatim>\<open>storeFileToFlash\<close>\<close>

text \<open>
  The body of the \<^verbatim>\<open>while (1)\<close> loop, lines 145--163: the bytes read are padded to a
  multiple of the programming page by \<^verbatim>\<open>memset(buffer + programSize, FLASH_PAGE_SIZE, ...)\<close>
  (the fill value is converted to \<^verbatim>\<open>unsigned char\<close>), swapped, and the range is
  erased and programmed between the two interrupt calls. The buffer holds one sector;
  the first \<open>programSize\<close> bytes of it are the bytes read followed by the fill bytes.
\<close>

definition padded_buffer :: "platform \<Rightarrow> uint8_t list \<Rightarrow> uint8_t list" where
  "padded_buffer pf got =
     (let programSize = length got in
      if programSize mod FLASH_PAGE_SIZE pf \<noteq> 0 then
        (let paddedSize =
           ((programSize + FLASH_PAGE_SIZE pf - 1) div FLASH_PAGE_SIZE pf) * FLASH_PAGE_SIZE pf
         in got @ replicate (paddedSize - programSize) (char_of (FLASH_PAGE_SIZE pf)))
      else got)"

definition program_chunk :: "platform \<Rightarrow> uint32_t \<Rightarrow> uint8_t list \<Rightarrow> flash_op list" where
  "program_chunk pf offset got =
     (let buffer = CHANGE_ENDIANESS_BLOCK16 (padded_buffer pf got);
          programSize = length buffer
      in [save_and_disable_interrupts,
          flash_range_erase offset programSize,
          flash_range_program offset buffer,
          restore_interrupts])"

text \<open>
  The loop of lines 133--167. It returns the result code and the flash calls made; the
  calls made before a failing read stay in the list (nothing is rolled back). The debug
  messages of \<^verbatim>\<open>storeFileToFlash\<close> and its \<^verbatim>\<open>f_close\<close> calls change neither the
  result nor the flash and are left out.
\<close>

function flash_loop :: "platform \<Rightarrow> FIL \<Rightarrow> uint32_t \<Rightarrow> FRESULT \<times> flash_op list" where
  "flash_loop pf file offset =
     (case f_read file (FLASH_SECTOR_SIZE pf) of (res, got, file') \<Rightarrow>
        if res \<noteq> FR_OK then (res, [])
        else if length got = 0 then (FR_OK, [])
        else (case flash_loop pf file' (offset + of_nat (length got)) of
                (res', ops) \<Rightarrow> (res', program_chunk pf offset got @ ops)))"
  by pat_completeness auto
termination
proof (relation "measure (\<lambda>(pf, fp, offset). length (fdata fp) - fptr fp)", goal_cases)
  case 1
  show ?case by simp
next
  case (2 pf fp offset res rest got fp')
  then show ?case
    by (auto simp: f_read_def next_result_def Let_def split: list.splits if_splits)
qed

declare flash_loop.simps [simp del]

definition storeFileToFlash ::
  "platform \<Rightarrow> fatfs \<Rightarrow> string \<Rightarrow> uint32_t \<Rightarrow> FRESULT \<times> flash_op list" where
  "storeFileToFlash pf fs filename flashAddress =
     (case f_open fs filename of (res, file) \<Rightarrow>
        if res \<noteq> FR_OK then (res, [])
        else
          (let size = f_size file in
           if size > 4 \<and> (size - 4) mod FLASH_SECTOR_SIZE pf = 0 then
             (case f_read file 4 of (res1, buffer, file1) \<Rightarrow>
                if res1 \<noteq> FR_OK \<or> length buffer \<noteq> 4 then (res1, [])
                else if buffer ! 0 = CHR 0x00 \<and> buffer ! 1 = CHR 0x00 \<and>
                        buffer ! 2 = CHR 0x00 \<and> buffer ! 3 = CHR 0x00
                then flash_loop pf file1 (flashAddress - XIP_BASE pf)
                else
                  (case f_lseek file1 (f_tell file1 - 4) of (res2, file2) \<Rightarrow>
                     if res2 \<noteq> FR_OK then (res2, [])
                     else flash_loop pf file2 (flashAddress - XIP_BASE pf)))
           else flash_loop pf file (flashAddress - XIP_BASE pf)))"


section \<open>C strings and library functions\<close>

text \<open>
  A C string is the list of its characters before the terminating NUL. The functions
  below are those of the C library that \<^verbatim>\<open>emul.c\<close> calls, in the "C" locale.
\<close>

definition cstr :: "string \<Rightarrow> string" where
  "cstr buf = takeWhile (\<lambda>c. c \<noteq> CHR 0x00) buf"

definition tolower :: "char \<Rightarrow> char" where
  "tolower c = (let n = (of_char c :: nat) in if 65 \<le> n \<and> n \<le> 90 then char_of (n + 32) else c)"

definition isspace :: "char \<Rightarrow> bool" where
  "isspace c = (let n = (of_char c :: nat) in n = 32 \<or> (9 \<le> n \<and> n \<le> 13))"

definition isdigit :: "char \<Rightarrow> bool" where
  "isdigit c = (let n = (of_char c :: nat) in 48 \<le> n \<and> n \<le> 57)"

definition isxdigit :: "char \<Rightarrow> bool" where
  "isxdigit c = (let n = (of_char c :: nat) in
     (48 \<le> n \<and> n \<le> 57) \<or> (65 \<le> n \<and> n \<le> 70) \<or> (97 \<le> n \<and> n \<le> 102))"

definition hexval :: "char \<Rightarrow> nat" where
  "hexval c = (let n = (of_char c :: nat) in
     if 48 \<le> n \<and> n \<le> 57 then n - 48
     else if 65 \<le> n \<and> n \<le> 70 then n - 55
     else n - 87)"

text \<open>\<^verbatim>\<open>strcasecmp\<close>: the difference of the first lower-cased characters that differ,
  the end of a string counting as NUL; the comparison stops at a NUL.\<close>

fun strcasecmp :: "string \<Rightarrow> string \<Rightarrow> int" where
  "strcasecmp [] [] = 0"
| "strcasecmp [] (b # bs) = - int (of_char (tolower b))"
| "strcasecmp (a # as) [] = int (of_char (tolower a))"
| "strcasecmp (a # as) (b # bs) =
     (if a \<noteq> CHR 0x00 \<and> tolower a = tolower b then strcasecmp as bs
      else int (of_char (tolower a)) - int (of_char (tolower b)))"

text \<open>\<^verbatim>\<open>strncpy(dest, src, n); dest[n] = '\0'\<close> and \<^verbatim>\<open>strncat(dest, src, n)\<close>: at
  most \<open>n\<close> characters of the source string are taken.\<close>

definition strncpy :: "nat \<Rightarrow> string \<Rightarrow> string" where
  "strncpy n src = take n (cstr src)"

definition strncat :: "string \<Rightarrow> string \<Rightarrow> nat \<Rightarrow> string" where
  "strncat dest src n = dest @ take n (cstr src)"

text \<open>\<^verbatim>\<open>atoi\<close>: leading white space, an optional sign, then decimal digits. The C
  \<^verbatim>\<open>int\<close> is modelled by \<^typ>\<open>int\<close>: the numbers typed at the menu and the sizes
  of the catalog are small.\<close>

fun atoi_digits :: "int \<Rightarrow> string \<Rightarrow> int" where
  "atoi_digits acc [] = acc"
| "atoi_digits acc (c # cs) =
     (if isdigit c then atoi_digits (acc * 10 + (int (of_char c) - 48)) cs else acc)"

definition atoi :: "string \<Rightarrow> int" where
  "atoi s =
     (case dropWhile isspace s of
        [] \<Rightarrow> 0
      | c # cs \<Rightarrow>
          if c = CHR ''-'' then - atoi_digits 0 cs
          else if c = CHR ''+'' then atoi_digits 0 cs
          else atoi_digits 0 (c # cs))"

text \<open>Decimal printing, for \<^verbatim>\<open>settings_put_integer\<close>.\<close>

function string_of_nat :: "nat \<Rightarrow> string" where
  "string_of_nat n =
     (if n < 10 then [char_of (48 + n)]
      else string_of_nat (n div 10) @ [char_of (48 + n mod 10)])"
  by pat_completeness auto
termination
  by (relation "measure (\<lambda>n. n)") auto

declare string_of_nat.simps [simp del]

definition string_of_int :: "int \<Rightarrow> string" where
  "string_of_int i =
     (if i < 0 then CHR ''-'' # string_of_nat (nat (- i)) else string_of_nat (nat i))"


section \<open>Application state\<close>

definition MAX_ROMS :: int where "MAX_ROMS = 100"
definition MAX_ROMS_PER_PAGE :: int where "MAX_ROMS_PER_PAGE = 20"
definition MAX_FILENAME_LENGTH :: nat where "MAX_FILENAME_LENGTH = 36"
definition MAX_PATH_SIZE :: nat where "MAX_PATH_SIZE = 128"
definition DOWNLOAD_START_MS :: int where "DOWNLOAD_START_MS = 3 * 1000"

definition ROM_MODE_DIRECT :: int where "ROM_MODE_DIRECT = 0"
definition ROM_MODE_DELAY :: int where "ROM_MODE_DELAY = 1"
definition ROM_MODE_SETUP :: int where "ROM_MODE_SETUP = 255"

definition TERM_ROMS_MENU_MAIN :: int where "TERM_ROMS_MENU_MAIN = 0"
definition TERM_ROMS_MENU_BROWSE_SD :: int where "TERM_ROMS_MENU_BROWSE_SD = 1"
definition TERM_ROMS_MENU_BROWSE_NETWORK :: int where "TERM_ROMS_MENU_BROWSE_NETWORK = 2"
definition TERM_ROMS_MENU_LAUNCH :: int where "TERM_ROMS_MENU_LAUNCH = 3"
definition TERM_ROMS_MENU_BOOSTER :: int where "TERM_ROMS_MENU_BOOSTER = 6"
definition TERM_ROMS_MENU_SUBMENU :: int where "TERM_ROMS_MENU_SUBMENU = 256"

text \<open>The \<^verbatim>\<open>ROM\<close> struct of \<^verbatim>\<open>emul.h\<close> (the member \<^verbatim>\<open>size\<close> is \<open>rom_size\<close>).\<close>

record ROM =
  filename :: string
  path :: string
  name :: string
  description :: string
  tags :: string
  rom_size :: int

definition zero_ROM :: ROM where
  "zero_ROM = \<lparr>filename = [], path = [], name = [], description = [], tags = [], rom_size = 0\<rparr>"

text \<open>
  Undefined behaviour of the C code is a value of the model: an array read outside
  \<^verbatim>\<open>roms[MAX_ROMS]\<close>, a dereferenced \<^verbatim>\<open>NULL\<close> settings entry, and a
  \<^verbatim>\<open>strncat\<close> that writes past the \<^verbatim>\<open>path\<close> member.
\<close>

datatype fault = OutOfBounds int | NullPointer | BufferOverflow

text \<open>
  Modelled from the spec: the text terminal (line-oriented print) is an external
  collaborator. The model keeps the sequence of print calls; a line formatted with
  \<^verbatim>\<open>snprintf\<close> is kept with its arguments (the display width
  \<^verbatim>\<open>TERM_SCREEN_SIZE_X\<close> and the release string are not in this repository).
  The other calls to the terminal and to the display (initialisation, clear screen,
  registration of the command table, refresh, the command that lets the computer
  continue to its desktop) are kept in the same sequence.
\<close>

datatype term_event =
    term_printString string
  | showTitle
  | print_page_header int int int int
  | print_rom_line int string
  | print_size_kb int
  | term_init
  | term_clearScreen
  | term_setCommands
  | display_refresh
  | SEND_COMMAND_TO_DISPLAY_CONTINUE

text \<open>
  Modelled from the spec: the configuration store (get(key) -> optional string,
  put-string, put-integer, save) with the keys this file uses.
\<close>

datatype param =
    ACONFIG_PARAM_ROM_MODE
  | ACONFIG_PARAM_ROM_SELECTED
  | ACONFIG_PARAM_ROMS_FOLDER

type_synonym settings = "param \<Rightarrow> string option"

definition settings_find_entry :: "settings \<Rightarrow> param \<Rightarrow> string option" where
  "settings_find_entry ctx key = ctx key"

definition settings_put_string :: "settings \<Rightarrow> param \<Rightarrow> string \<Rightarrow> settings" where
  "settings_put_string ctx key v = ctx(key \<mapsto> v)"

definition settings_put_integer :: "settings \<Rightarrow> param \<Rightarrow> int \<Rightarrow> settings" where
  "settings_put_integer ctx key v = ctx(key \<mapsto> string_of_int v)"

text \<open>
  Modelled from the spec: the download engine (setTargetPath, start, poll, status,
  setStatus, finish, confirm) is external. The model keeps its status variable and the
  sequence of calls made to it; how a call changes the status is the engine's business
  and is a parameter \<open>engine\<close> of the operations that call it. The result of
  \<^verbatim>\<open>download_start\<close> only selects a debug message.
\<close>

datatype download_status =
    DOWNLOAD_STATUS_IDLE
  | DOWNLOAD_STATUS_REQUESTED
  | DOWNLOAD_STATUS_NOT_STARTED
  | DOWNLOAD_STATUS_IN_PROGRESS
  | DOWNLOAD_STATUS_COMPLETED

datatype download_call =
    download_setFilepath string
  | download_start
  | download_poll
  | download_finish
  | download_confirm

type_synonym engine = "download_call \<Rightarrow> download_status \<Rightarrow> download_status"

text \<open>The file-scope variables of \<^verbatim>\<open>emul.c\<close>, followed by the state of the
  external collaborators.\<close>

record app_state =
  roms :: "ROM list"
  romsCount :: int
  romsFolder :: string
  currentRomPage :: int
  maxRomPages :: int
  downloadRomSelected :: int
  menuLevel :: int
  keepActive :: bool
  resetDeviceAtBoot :: bool
  hasNetwork :: bool
  delayMode :: bool
  term_out :: "term_event list"
  debug_out :: "string list"
  aconfig :: settings
  aconfig_saved :: settings
  dl_status :: download_status
  dl_calls :: "download_call list"
  dl_protocol :: string
  dl_host :: string
  flash_calls :: "flash_op list"

definition init_state :: app_state where
  "init_state = \<lparr>roms = replicate (nat MAX_ROMS) zero_ROM, romsCount = 0,
     romsFolder = ''/roms'', currentRomPage = 0, maxRomPages = 0,
     downloadRomSelected = - 1, menuLevel = 0, keepActive = True,
     resetDeviceAtBoot = True, hasNetwork = False, delayMode = False,
     term_out = [], debug_out = [], aconfig = Map.empty, aconfig_saved = Map.empty,
     dl_status = DOWNLOAD_STATUS_IDLE, dl_calls = [], dl_protocol = [], dl_host = [],
     flash_calls = []\<rparr>"

definition print :: "string \<Rightarrow> app_state \<Rightarrow> app_state" where
  "print s st = st\<lparr>term_out := term_out st @ [term_printString s]\<rparr>"

definition DPRINTF :: "string \<Rightarrow> app_state \<Rightarrow> app_state" where
  "DPRINTF s st = st\<lparr>debug_out := debug_out st @ [s]\<rparr>"

definition settings_save :: "app_state \<Rightarrow> app_state" where
  "settings_save st = st\<lparr>aconfig_saved := aconfig st\<rparr>"

definition engine_call :: "engine \<Rightarrow> download_call \<Rightarrow> app_state \<Rightarrow> app_state" where
  "engine_call engine c st =
     st\<lparr>dl_calls := dl_calls st @ [c], dl_status := engine c (dl_status st)\<rparr>"

definition download_setStatus :: "download_status \<Rightarrow> app_state \<Rightarrow> app_state" where
  "download_setStatus s st = st\<lparr>dl_status := s\<rparr>"


section \<open>Catalog: local scan and remote parse\<close>

text \<open>\<^verbatim>\<open>strrchr\<close>, as the index of the last occurrence.\<close>

fun strrchr :: "string \<Rightarrow> char \<Rightarrow> nat option" where
  "strrchr [] c = None"
| "strrchr (x # xs) c =
     (case strrchr xs c of
        Some i \<Rightarrow> Some (Suc i)
      | None \<Rightarrow> if x = c then Some 0 else None)"

definition hasValidExtension :: "string \<Rightarrow> int" where
  "hasValidExtension fn =
     (case strrchr fn (CHR ''.'') of
        None \<Rightarrow> 0
      | Some dot \<Rightarrow>
          if dot = 0 then 0
          else (let ext = drop (Suc dot) fn in
                if strcasecmp ext ''img'' = 0 \<or> strcasecmp ext ''rom'' = 0 \<or>
                   strcasecmp ext ''stc'' = 0 \<or> strcasecmp ext ''bin'' = 0
                then 1 else 0))"

definition compareRoms :: "ROM \<Rightarrow> ROM \<Rightarrow> int" where
  "compareRoms romA romB = strcasecmp (filename romA) (filename romB)"

text \<open>
  Modelled from the spec: \<^verbatim>\<open>qsort\<close> is the C library's. It orders the array by the
  comparison function it is given and promises nothing about the order of elements that
  compare equal; the model sorts by insertion with the same comparison function.
\<close>

fun qsort_insert :: "('a \<Rightarrow> 'a \<Rightarrow> int) \<Rightarrow> 'a \<Rightarrow> 'a list \<Rightarrow> 'a list" where
  "qsort_insert cmp x [] = [x]"
| "qsort_insert cmp x (y # ys) =
     (if cmp x y \<le> 0 then x # y # ys else y # qsort_insert cmp x ys)"

fun qsort :: "('a \<Rightarrow> 'a \<Rightarrow> int) \<Rightarrow> 'a list \<Rightarrow> 'a list" where
  "qsort cmp [] = []"
| "qsort cmp (x # xs) = qsort_insert cmp x (qsort cmp xs)"

text \<open>\<^verbatim>\<open>qsort(roms, romsCount, sizeof(ROM), compareRoms)\<close> followed by the page
  count, the common tail of both producers.\<close>

definition sort_and_paginate :: "app_state \<Rightarrow> app_state" where
  "sort_and_paginate st =
     st\<lparr>roms := qsort compareRoms (take (nat (romsCount st)) (roms st))
                   @ drop (nat (romsCount st)) (roms st),
        maxRomPages := (romsCount st + MAX_ROMS_PER_PAGE - 1) div MAX_ROMS_PER_PAGE\<rparr>"

text \<open>The three \<^verbatim>\<open>strncat\<close> calls that build \<^verbatim>\<open>path\<close> (128 bytes) from an empty
  string.\<close>

definition build_path :: "string \<Rightarrow> string \<Rightarrow> fault + string" where
  "build_path folder file_name =
     (let p = strncat (strncat (strncat [] folder (MAX_PATH_SIZE - 1)) ''/'' (MAX_PATH_SIZE - 1))
                file_name (MAX_PATH_SIZE - 1)
      in if length p > MAX_PATH_SIZE - 1 then Inl BufferOverflow else Inr p)"

definition AM_DIR :: "8 word" where "AM_DIR = 0x10"

text \<open>
  The \<^verbatim>\<open>for (;;)\<close> loop of \<^verbatim>\<open>readRomsSdcard\<close> over the results of
  \<^verbatim>\<open>f_readdir\<close>; at the end of the directory \<^verbatim>\<open>f_readdir\<close> returns an empty name.
  Only \<^verbatim>\<open>filename\<close>, \<^verbatim>\<open>name\<close> and \<^verbatim>\<open>path\<close> of the slot are written.
\<close>

fun scan_entries :: "string \<Rightarrow> (FRESULT \<times> FILINFO) list \<Rightarrow> app_state \<Rightarrow> fault + app_state" where
  "scan_entries folder [] st = Inr st"
| "scan_entries folder ((res, fno) # rest) st =
     (if res \<noteq> FR_OK \<or> fname fno = [] then Inr st
      else if fattrib fno AND AM_DIR \<noteq> 0 then scan_entries folder rest st
      else if hd (fname fno) = CHR ''.'' then scan_entries folder rest st
      else if hasValidExtension (fname fno) = 0 then scan_entries folder rest st
      else if romsCount st < MAX_ROMS then
        (case build_path folder (fname fno) of
           Inl e \<Rightarrow> Inl e
         | Inr p \<Rightarrow>
             scan_entries folder rest
               (st\<lparr>roms := (roms st)[nat (romsCount st) :=
                        (roms st ! nat (romsCount st))
                          \<lparr>filename := strncpy (MAX_FILENAME_LENGTH - 1) (fname fno),
                           name := strncpy (MAX_FILENAME_LENGTH - 1) (fname fno),
                           path := p\<rparr>],
                   romsCount := romsCount st + 1\<rparr>))
      else Inr (DPRINTF ''Maximum ROM count reached'' st))"

definition readRomsSdcard :: "fatfs \<Rightarrow> string \<Rightarrow> app_state \<Rightarrow> fault + app_state" where
  "readRomsSdcard fs folder st =
     (case dirs fs folder of (res, entries) \<Rightarrow>
        if res \<noteq> FR_OK then Inr (DPRINTF ''Error opening directory'' st)
        else
          (case scan_entries folder entries (st\<lparr>romsCount := 0\<rparr>) of
             Inl e \<Rightarrow> Inl e
           | Inr st1 \<Rightarrow> Inr (DPRINTF ''Found ROMs on the SD card'' (sort_and_paginate st1))))"

text \<open>\<^verbatim>\<open>urlDecode\<close>: \<open>room\<close> is \<^verbatim>\<open>destSize - 1 - idx\<close>. A \<open>%\<close> followed by fewer
  than two characters is followed by the terminating NUL, which is no hexadecimal digit.\<close>

fun urlDecode_from :: "string \<Rightarrow> nat \<Rightarrow> string" where
  "urlDecode_from [] room = []"
| "urlDecode_from (c # h1 # h2 # rest) room =
     (if room = 0 then []
      else if c = CHR ''%'' \<and> isxdigit h1 \<and> isxdigit h2
      then char_of (hexval h1 * 16 + hexval h2) # urlDecode_from rest (room - 1)
      else c # urlDecode_from (h1 # h2 # rest) (room - 1))"
| "urlDecode_from (c # rest) room =
     (if room = 0 then [] else c # urlDecode_from rest (room - 1))"

definition urlDecode :: "string \<Rightarrow> nat \<Rightarrow> string" where
  "urlDecode src destSize = urlDecode_from src (destSize - 1)"

text \<open>Modelled from the spec: \<^verbatim>\<open>f_gets\<close> of the storage driver reads one line: at most
  \<open>len - 1\<close> characters, up to and including the newline; \<open>None\<close> is its \<^verbatim>\<open>NULL\<close>
  (end of file or error).\<close>

fun take_line :: "nat \<Rightarrow> string \<Rightarrow> string" where
  "take_line 0 s = []"
| "take_line (Suc n) [] = []"
| "take_line (Suc n) (c # cs) = (if c = CHR 0x0A then [c] else c # take_line n cs)"

definition f_gets :: "nat \<Rightarrow> FIL \<Rightarrow> string option \<times> FIL" where
  "f_gets len fp =
     (case next_result fp of (r, fp1) \<Rightarrow>
        if r \<noteq> FR_OK then (None, fp1)
        else (let text_line = take_line (len - 1) (drop (fptr fp1) (fdata fp1)) in
              if text_line = [] then (None, fp1)
              else (Some text_line, fp1\<lparr>fptr := fptr fp1 + length text_line\<rparr>)))"

text \<open>The macro \<^verbatim>\<open>EXTRACT_FIELD(dest)\<close>: \<open>None\<close> is the \<^verbatim>\<open>goto next_line\<close>;
  otherwise the field and the advanced \<^verbatim>\<open>ptr\<close>.\<close>

definition EXTRACT_FIELD :: "nat \<Rightarrow> string \<Rightarrow> (string \<times> string) option" where
  "EXTRACT_FIELD dest_size ptr =
     (case dropWhile isspace ptr of
        [] \<Rightarrow> None
      | q # p2 \<Rightarrow>
          if q \<noteq> CHR 0x22 then None
          else (let dest = take (dest_size - 1) (takeWhile (\<lambda>c. c \<noteq> CHR 0x22) p2);
                    p3 = drop (length dest) p2;
                    p4 = (case p3 of [] \<Rightarrow> p3 | c # r \<Rightarrow> if c = CHR 0x22 then r else p3)
                in Some (dest, dropWhile (\<lambda>c. c = CHR '','' \<or> isspace c) p4)))"

text \<open>The five fields of a line, or \<open>None\<close> when one of them is not quoted.\<close>

definition extract_fields :: "string \<Rightarrow> (string \<times> string \<times> string \<times> string \<times> string) option" where
  "extract_fields line =
     (case EXTRACT_FIELD (MAX_PATH_SIZE * 2) line of
        None \<Rightarrow> None
      | Some (field1, p1) \<Rightarrow>
     (case EXTRACT_FIELD (MAX_PATH_SIZE * 2) p1 of
        None \<Rightarrow> None
      | Some (field2, p2) \<Rightarrow>
     (case EXTRACT_FIELD MAX_PATH_SIZE p2 of
        None \<Rightarrow> None
      | Some (field3, p3) \<Rightarrow>
     (case EXTRACT_FIELD (MAX_PATH_SIZE * 2) p3 of
        None \<Rightarrow> None
      | Some (field4, p4) \<Rightarrow>
     (case EXTRACT_FIELD (MAX_PATH_SIZE div 4) p4 of
        None \<Rightarrow> None
      | Some (field5, p5) \<Rightarrow> Some (field1, field2, field3, field4, field5))))))"

text \<open>Lines 356--400: decoding and storing one entry (the caller has checked
  \<^verbatim>\<open>romsCount < MAX_ROMS\<close>).\<close>

definition store_csv_entry ::
  "string \<times> string \<times> string \<times> string \<times> string \<Rightarrow> app_state \<Rightarrow> fault + app_state" where
  "store_csv_entry flds st =
     (case flds of (field1, field2, field3, field4, field5) \<Rightarrow>
        (let decodedField1 = urlDecode field1 (MAX_PATH_SIZE * 2);
             decodedField2 = urlDecode field2 (MAX_PATH_SIZE * 2);
             decodedField3 = urlDecode field3 MAX_PATH_SIZE;
             decodedField4 = urlDecode field4 (MAX_PATH_SIZE * 2);
             sizeKb = atoi field5
         in case settings_find_entry (aconfig st) ACONFIG_PARAM_ROMS_FOLDER of
              None \<Rightarrow> Inl NullPointer
            | Some folder \<Rightarrow>
                (case build_path folder decodedField1 of
                   Inl e \<Rightarrow> Inl e
                 | Inr p \<Rightarrow>
                     Inr (st\<lparr>roms := (roms st)[nat (romsCount st) :=
                            \<lparr>filename = strncpy (MAX_FILENAME_LENGTH - 1) field1,
                             path = p,
                             name = strncpy (MAX_FILENAME_LENGTH - 1) decodedField2,
                             description = strncpy (MAX_PATH_SIZE - 1) decodedField3,
                             tags = strncpy (MAX_FILENAME_LENGTH - 1) decodedField4,
                             rom_size = sizeKb\<rparr>],
                           romsCount := romsCount st + 1\<rparr>))))"

lemma length_take_line: "length (take_line n xs) \<le> length xs"
  by (induction n xs rule: take_line.induct) auto

lemma f_gets_advances:
  assumes "f_gets len fp = (Some l, fp')"
  shows "length (fdata fp') - fptr fp' < length (fdata fp) - fptr fp"
proof -
  let ?l = "take_line (len - 1) (drop (fptr fp) (fdata fp))"
  from assms have l: "?l \<noteq> []" and fp': "fdata fp' = fdata fp" "fptr fp' = fptr fp + length ?l"
    by (auto simp: f_gets_def next_result_def Let_def split: list.splits if_splits)
  have "length ?l \<le> length (fdata fp) - fptr fp"
    using length_take_line [of "len - 1" "drop (fptr fp) (fdata fp)"] by simp
  moreover from l have "0 < length ?l"
    by simp
  ultimately show ?thesis
    using fp' by arith
qed

text \<open>The \<^verbatim>\<open>while (f_gets(...) != NULL)\<close> loop of \<^verbatim>\<open>readRomsCsv\<close>; the line buffer
  has \<^verbatim>\<open>FLASH_PAGE_SIZE * 2\<close> bytes.\<close>

function csv_loop :: "platform \<Rightarrow> FIL \<Rightarrow> app_state \<Rightarrow> fault + app_state" where
  "csv_loop pf csvFile st =
     (case f_gets (FLASH_PAGE_SIZE pf * 2) csvFile of
        (None, csvFile') \<Rightarrow> Inr st
      | (Some text_line, csvFile') \<Rightarrow>
          (let line = cstr text_line in
           if line = [] \<or> hd line = CHR 0x0A then csv_loop pf csvFile' st
           else
             (case extract_fields line of
                None \<Rightarrow> csv_loop pf csvFile' (DPRINTF ''expected quote'' st)
              | Some flds \<Rightarrow>
                  if romsCount st < MAX_ROMS then
                    (case store_csv_entry flds st of
                       Inl e \<Rightarrow> Inl e
                     | Inr st1 \<Rightarrow> csv_loop pf csvFile' st1)
                  else Inr (DPRINTF ''Maximum ROM count reached'' st))))"
  by pat_completeness auto
termination
proof (relation "measure (\<lambda>(pf, fp, st). length (fdata fp) - fptr fp)", goal_cases)
  case 1
  show ?case by simp
next
  case (2 pf fp st r fp' l)
  then show ?case
    using f_gets_advances [of "FLASH_PAGE_SIZE pf * 2" fp l fp'] by simp
next
  case (3 pf fp st r fp' l)
  then show ?case
    using f_gets_advances [of "FLASH_PAGE_SIZE pf * 2" fp l fp'] by simp
next
  case (4 pf fp st r fp' l)
  then show ?case
    using f_gets_advances [of "FLASH_PAGE_SIZE pf * 2" fp l fp'] by simp
qed

declare csv_loop.simps [simp del]

definition readRomsCsv :: "platform \<Rightarrow> fatfs \<Rightarrow> string \<Rightarrow> app_state \<Rightarrow> fault + app_state" where
  "readRomsCsv pf fs csvFilepath st0 =
     (let st = st0\<lparr>romsCount := 0\<rparr> in
      case f_open fs csvFilepath of (res, csvFile) \<Rightarrow>
        if res \<noteq> FR_OK then Inr (DPRINTF ''Error opening CSV file'' st)
        else
          (case f_gets (FLASH_PAGE_SIZE pf * 2) csvFile of
             (None, csvFile1) \<Rightarrow> Inr (DPRINTF ''Error reading header from CSV file'' st)
           | (Some header, csvFile1) \<Rightarrow>
               (case csv_loop pf csvFile1 st of
                  Inl e \<Rightarrow> Inl e
                | Inr st1 \<Rightarrow> Inr (DPRINTF ''Found ROMs in CSV file'' (sort_and_paginate st1)))))"


section \<open>Menu and pagination\<close>

fun prints :: "string list \<Rightarrow> app_state \<Rightarrow> app_state" where
  "prints [] st = st"
| "prints (s # ss) st = prints ss (print s st)"

text \<open>\<^verbatim>\<open>menu()\<close>; \<open>currentIp\<close> is what \<^verbatim>\<open>network_getCurrentIp()\<close> returns.\<close>

definition menu :: "uint32_t \<Rightarrow> app_state \<Rightarrow> app_state" where
  "menu currentIp st0 =
     (let st1 = st0\<lparr>menuLevel := TERM_ROMS_MENU_MAIN, term_out := term_out st0 @ [showTitle]\<rparr>;
          st2 = prints [''\<newline>\<newline>'',
                        ''[B] Browse ROMs in microSD card\<newline>'',
                        ''[D] Download ROMs from internet server\<newline>'',
                        ''[S] Settings\<newline>\<newline>'',
                        ''[E] Exit to desktop\<newline>'',
                        ''[X] Return to booster menu\<newline>\<newline>'',
                        (if delayMode st1 then ''[R] Disable ROM delay/ripper mode\<newline>''
                         else ''[R] Enable ROM delay/ripper mode\<newline>''),
                        ''\<newline>''] st1;
          st3 = (case settings_find_entry (aconfig st2) ACONFIG_PARAM_ROM_SELECTED of
                   None \<Rightarrow> st2
                 | Some v \<Rightarrow>
                     if length v > 0 then prints [''[L] Launch ROM: '', v, ''\<newline>''] st2
                     else st2);
          st4 = prints [''\<newline>'', ''[M] Refresh this menu\<newline>'', ''\<newline>'',
                        ''Network status: ''] st3;
          st5 = st4\<lparr>hasNetwork := (currentIp \<noteq> 0)\<rparr>;
          st6 = print (if hasNetwork st5 then ''Connected\<newline>''
                       else ''Not connected\<newline>'') st5
      in prints [''\<newline>'', ''Select an option: ''] st6)"

text \<open>
  \<^verbatim>\<open>displayRomsPage\<close>. \<open>page_start\<close> and \<open>page_end\<close> are the final values of
  \<^verbatim>\<open>startIndex\<close> and \<^verbatim>\<open>endIndex\<close>; the \<^verbatim>\<open>for\<close> loop reads \<^verbatim>\<open>roms[i]\<close> for
  every \<open>i\<close> from \<open>page_start\<close> up to, not including, \<open>page_end\<close>. The array passed
  is \<^verbatim>\<open>roms[MAX_ROMS]\<close>: an index outside it is a fault.
\<close>

definition page_start :: "int \<Rightarrow> int \<Rightarrow> int \<Rightarrow> int" where
  "page_start count pageSize0 pageNumber =
     (let pageSize = (if pageSize0 \<le> 0 then 0 else pageSize0);
          startIndex = pageNumber * pageSize
      in if startIndex \<ge> count then count - 1 else startIndex)"

definition page_end :: "int \<Rightarrow> int \<Rightarrow> int \<Rightarrow> int" where
  "page_end count pageSize0 pageNumber =
     (let pageSize = (if pageSize0 \<le> 0 then 0 else pageSize0);
          endIndex = page_start count pageSize0 pageNumber + pageSize
      in if endIndex > count then count else endIndex)"

definition page_indices :: "int \<Rightarrow> int \<Rightarrow> int \<Rightarrow> int list" where
  "page_indices count pageSize pageNumber =
     [page_start count pageSize pageNumber .. page_end count pageSize pageNumber - 1]"

fun print_rows :: "ROM list \<Rightarrow> int list \<Rightarrow> app_state \<Rightarrow> fault + app_state" where
  "print_rows rs [] st = Inr st"
| "print_rows rs (i # idxs) st =
     (if i < 0 \<or> int (length rs) \<le> i then Inl (OutOfBounds i)
      else print_rows rs idxs
             (st\<lparr>term_out := term_out st @ [print_rom_line (i + 1) (name (rs ! nat i))]\<rparr>))"

definition displayRomsPage ::
  "ROM list \<Rightarrow> int \<Rightarrow> int \<Rightarrow> int \<Rightarrow> app_state \<Rightarrow> fault + app_state" where
  "displayRomsPage rs count pageSize pageNumber st =
     (let startIndex = page_start count pageSize pageNumber;
          endIndex = page_end count pageSize pageNumber;
          st1 = st\<lparr>term_out := term_out st @
                  [print_page_header (pageNumber + 1) (startIndex + 1) endIndex count]\<rparr>
      in case print_rows rs (page_indices count pageSize pageNumber) st1 of
           Inl e \<Rightarrow> Inl e
         | Inr st2 \<Rightarrow> Inr (st2\<lparr>currentRomPage := pageNumber\<rparr>))"

definition navigatePages :: "int \<Rightarrow> app_state \<Rightarrow> fault + app_state" where
  "navigatePages pageNumber st =
     (case displayRomsPage (roms st) (romsCount st) MAX_ROMS_PER_PAGE pageNumber
             (print [CHR 0x1B, CHR ''E''] st) of
        Inl e \<Rightarrow> Inl e
      | Inr st1 \<Rightarrow>
          (let st2 = print ''\<newline>'' st1;
               st3 = (if pageNumber < maxRomPages st2 - 1 then print ''[N]ext '' st2 else st2);
               st4 = (if pageNumber > 0 then print ''[P]rev '' st3 else st3)
           in Inr (print ''[M]enu or ROM number'' st4)))"


section \<open>Command handlers\<close>

definition cmdMenu :: "uint32_t \<Rightarrow> app_state \<Rightarrow> app_state" where
  "cmdMenu currentIp st = menu currentIp st"

definition cmdNext :: "app_state \<Rightarrow> fault + app_state" where
  "cmdNext st =
     (let st1 = (if currentRomPage st < maxRomPages st - 1
                 then st\<lparr>currentRomPage := currentRomPage st + 1\<rparr> else st)
      in navigatePages (currentRomPage st1) st1)"

definition cmdPrev :: "app_state \<Rightarrow> fault + app_state" where
  "cmdPrev st =
     (let st1 = st\<lparr>currentRomPage := currentRomPage st - 1\<rparr>;
          st2 = (if currentRomPage st1 < 0 then st1\<lparr>currentRomPage := 0\<rparr> else st1)
      in navigatePages (currentRomPage st2) st2)"

definition cmdHelp :: "app_state \<Rightarrow> app_state" where
  "cmdHelp st =
     prints [''Available commands:\<newline>'',
             '' General:\<newline>'',
             ''  clear   - Clear the terminal screen\<newline>'',
             ''  exit    - Exit the terminal\<newline>'',
             ''  help    - Show available commands\<newline>''] st"

definition cmdClear :: "app_state \<Rightarrow> app_state" where
  "cmdClear st = st\<lparr>term_out := term_out st @ [term_clearScreen]\<rparr>"

definition cmdExit :: "app_state \<Rightarrow> app_state" where
  "cmdExit st =
     (let st1 = print ''Exiting terminal...\<newline>'' st
      in st1\<lparr>term_out := term_out st1 @ [SEND_COMMAND_TO_DISPLAY_CONTINUE]\<rparr>)"

definition cmdCard :: "fatfs \<Rightarrow> app_state \<Rightarrow> fault + app_state" where
  "cmdCard fs st =
     (case readRomsSdcard fs (romsFolder st) st of
        Inl e \<Rightarrow> Inl e
      | Inr st1 \<Rightarrow>
          (let st2 = st1\<lparr>menuLevel := TERM_ROMS_MENU_BROWSE_SD\<rparr> in
           if romsCount st2 = 0 then
             Inr (prints [''No ROMs found in the SD card.\<newline>'',
                          ''Download ROMs from internet,\<newline>'',
                          ''or copy them to folder '' @ [CHR 0x27], romsFolder st2,
                          [CHR 0x27, CHR 0x0A, CHR 0x0A]] st2)
           else navigatePages 0 (st2\<lparr>currentRomPage := 0\<rparr>)))"

definition cmdNetwork :: "platform \<Rightarrow> fatfs \<Rightarrow> app_state \<Rightarrow> fault + app_state" where
  "cmdNetwork pf fs st =
     (case readRomsCsv pf fs ''/roms/roms.csv'' st of
        Inl e \<Rightarrow> Inl e
      | Inr st1 \<Rightarrow>
          navigatePages 0
            (st1\<lparr>menuLevel := TERM_ROMS_MENU_BROWSE_NETWORK, currentRomPage := 0\<rparr>))"

text \<open>\<^verbatim>\<open>cmdLaunch\<close>. \<^verbatim>\<open>snprintf(filename, MAX_PATH_SIZE, "%s/%s", ...)\<close> keeps at most
  \<^verbatim>\<open>MAX_PATH_SIZE - 1\<close> characters. The flash calls of \<^verbatim>\<open>storeFileToFlash\<close> are
  appended to the record of flash calls.\<close>

definition cmdLaunch :: "platform \<Rightarrow> fatfs \<Rightarrow> app_state \<Rightarrow> app_state" where
  "cmdLaunch pf fs st0 =
     (let st1 = print ''The ROM will boot shortly...\<newline>\<newline>''
                  (st0\<lparr>menuLevel := TERM_ROMS_MENU_LAUNCH\<rparr>);
          st2 = (if delayMode st1
                 then print ''ROM delay/ripper mode enabled. You must press SELECT to activate the ROM.\<newline>'' st1
                 else st1);
          st3 = prints [''To return to this menu, press SELECT\<newline>'',
                        ''If ROM doesn't boot, reset the computer\<newline>''] st2
      in case settings_find_entry (aconfig st3) ACONFIG_PARAM_ROM_SELECTED of
           None \<Rightarrow> DPRINTF ''No ROM file selected.'' st3
         | Some romFile \<Rightarrow>
             (let file_name = take (MAX_PATH_SIZE - 1) (romsFolder st3 @ ''/'' @ romFile);
                  flashAddress = rom_temp_start pf
              in case storeFileToFlash pf fs file_name flashAddress of (fresult, ops) \<Rightarrow>
                   (let st4 = st3\<lparr>flash_calls := flash_calls st3 @ ops\<rparr> in
                    if fresult \<noteq> FR_OK
                    then DPRINTF ''Error loading ROM file into FLASH'' st4
                    else
                      (settings_save
                         (st4\<lparr>aconfig := settings_put_integer (aconfig st4)
                                  ACONFIG_PARAM_ROM_MODE
                                  (if delayMode st4 then ROM_MODE_DELAY else ROM_MODE_DIRECT)\<rparr>))
                        \<lparr>keepActive := False\<rparr>)))"

text \<open>A read of \<^verbatim>\<open>roms[i]\<close>.\<close>

definition rom_at :: "app_state \<Rightarrow> int \<Rightarrow> fault + ROM" where
  "rom_at st i =
     (if i < 0 \<or> int (length (roms st)) \<le> i then Inl (OutOfBounds i)
      else Inr (roms st ! nat i))"

definition cmdUnknown :: "engine \<Rightarrow> uint32_t \<Rightarrow> string \<Rightarrow> app_state \<Rightarrow> fault + app_state" where
  "cmdUnknown engine currentIp arg st =
     (if menuLevel st = TERM_ROMS_MENU_MAIN then Inr (menu currentIp st)
      else if menuLevel st = TERM_ROMS_MENU_BROWSE_SD then
        (let romNumber = atoi arg in
         if romNumber > 0 \<and> romNumber \<le> romsCount st then
           (case rom_at st (romNumber - 1) of
              Inl e \<Rightarrow> Inl e
            | Inr rom \<Rightarrow>
                (let st1 = prints [''Selected ROM: '', filename rom, ''\<newline>''] st;
                     st2 = settings_save
                             (st1\<lparr>aconfig := settings_put_string (aconfig st1)
                                     ACONFIG_PARAM_ROM_SELECTED (filename rom)\<rparr>)
                 in Inr (menu currentIp st2)))
         else Inr (print ''Invalid ROM number. Please select a valid ROM number.\<newline>'' st))
      else if menuLevel st = TERM_ROMS_MENU_BROWSE_NETWORK then
        (let romNumber = atoi arg in
         if romNumber > 0 \<and> romNumber \<le> romsCount st then
           (case rom_at st (romNumber - 1) of
              Inl e \<Rightarrow> Inl e
            | Inr rom \<Rightarrow>
                (let st1 = prints [''\<newline>ROM number: '', arg, ''\<newline>'',
                                   ''Name: '', name rom, ''\<newline>'',
                                   ''Filename: '', filename rom, ''\<newline>'',
                                   ''Description: '', description rom, ''\<newline>'',
                                   ''Tags: '', tags rom, ''\<newline>'',
                                   ''Size: ''] st;
                     st2 = st1\<lparr>term_out := term_out st1 @ [print_size_kb (rom_size rom)]\<rparr>;
                     st3 = prints [''\<newline>Press RETURN to load the ROM.\<newline>'',
                                   ''Press any other key to return to the menu.\<newline>''] st2
                 in Inr (st3\<lparr>downloadRomSelected := romNumber - 1,
                            menuLevel := TERM_ROMS_MENU_BROWSE_NETWORK + TERM_ROMS_MENU_SUBMENU\<rparr>)))
         else Inr (print ''Invalid ROM number. Please select a valid ROM number.\<newline>'' st))
      else if menuLevel st = TERM_ROMS_MENU_BROWSE_NETWORK + TERM_ROMS_MENU_SUBMENU then
        (if arg = [] \<or> hd arg = CHR 0x0A then
           (let st1 = settings_save
                        (st\<lparr>aconfig := settings_put_string (aconfig st)
                               ACONFIG_PARAM_ROM_SELECTED []\<rparr>)
            in case rom_at st1 (downloadRomSelected st1) of
                 Inl e \<Rightarrow> Inl e
               | Inr rom \<Rightarrow>
                   (let url = take (MAX_PATH_SIZE * 2 - 1)
                                (dl_protocol st1 @ ''://'' @ dl_host st1 @ ''/'' @ filename rom);
                        st2 = engine_call engine (download_setFilepath url) st1;
                        st3 = engine_call engine download_start st2
                    in Inr (menu currentIp (st3\<lparr>menuLevel := TERM_ROMS_MENU_MAIN\<rparr>))))
         else navigatePages (currentRomPage st) (st\<lparr>menuLevel := TERM_ROMS_MENU_BROWSE_NETWORK\<rparr>))
      else if menuLevel st = TERM_ROMS_MENU_LAUNCH then Inr st
      else Inr (print ''Unknown command. Type 'help' for a list of commands.\<newline>'' st))"

definition cmdBooster :: "app_state \<Rightarrow> app_state" where
  "cmdBooster st =
     (prints [''Launching Booster app...\<newline>'',
              ''The computer will boot shortly...\<newline>\<newline>'',
              ''If it doesn't boot, power it on and off.\<newline>'']
        (st\<lparr>menuLevel := TERM_ROMS_MENU_BOOSTER\<rparr>))
       \<lparr>resetDeviceAtBoot := False, keepActive := False\<rparr>"

definition cmdDelay :: "uint32_t \<Rightarrow> app_state \<Rightarrow> app_state" where
  "cmdDelay currentIp st =
     menu currentIp (st\<lparr>delayMode := \<not> delayMode st, menuLevel := TERM_ROMS_MENU_MAIN\<rparr>)"


section \<open>Download orchestration in the main loop\<close>

definition preinit :: "app_state \<Rightarrow> app_state" where
  "preinit st =
     (let st1 = st\<lparr>term_out := term_out st @ [term_init, term_clearScreen, showTitle]\<rparr>;
          st2 = prints [''\<newline>\<newline>'',
                        ''Configuring network... please wait...\<newline>'',
                        ''or press SHIFT to boot to desktop.\<newline>''] st1
      in st2\<lparr>term_out := term_out st2 @ [display_refresh]\<rparr>)"

definition failure :: "string \<Rightarrow> app_state \<Rightarrow> app_state" where
  "failure message st =
     (let st1 = st\<lparr>term_out := term_out st @ [term_init, term_clearScreen, showTitle]\<rparr>;
          st2 = prints [''\<newline>\<newline>'', message] st1
      in st2\<lparr>term_out := term_out st2 @ [display_refresh]\<rparr>)"

definition romDownloadUpdate :: "uint32_t \<Rightarrow> app_state \<Rightarrow> fault + app_state" where
  "romDownloadUpdate currentIp st =
     (if downloadRomSelected st > 0 then
        (case rom_at st (downloadRomSelected st) of
           Inl e \<Rightarrow> Inl e
         | Inr rom \<Rightarrow>
             Inr (menu currentIp
                    (settings_save
                       (st\<lparr>aconfig := settings_put_string (aconfig st)
                               ACONFIG_PARAM_ROM_SELECTED (filename rom)\<rparr>))))
      else Inr st)"

text \<open>\<^verbatim>\<open>init(folder)\<close>; \<open>None\<close> is the \<^verbatim>\<open>NULL\<close> pointer. The last byte of
  \<^verbatim>\<open>romsFolder[MAX_PATH_SIZE]\<close> is never written and stays NUL.\<close>

definition init :: "string option \<Rightarrow> uint32_t \<Rightarrow> app_state \<Rightarrow> app_state" where
  "init folder currentIp st =
     (let st1 = (case folder of
                   None \<Rightarrow> st
                 | Some f \<Rightarrow>
                     if length (cstr f) > 0
                     then st\<lparr>romsFolder := strncpy (MAX_PATH_SIZE - 1) f\<rparr> else st);
          st2 = st1\<lparr>term_out := term_out st1 @ [term_setCommands, term_clearScreen]\<rparr>;
          st3 = menu currentIp st2
      in st3\<lparr>term_out := term_out st3 @ [display_refresh]\<rparr>)"

text \<open>
  Modelled from the spec: the clock of the SDK. An \<^verbatim>\<open>absolute_time_t\<close> is a number of
  microseconds since boot (64 bits, which do not overflow in the life of the device);
  \<^verbatim>\<open>make_timeout_time_ms(ms)\<close> is the time \<open>ms\<close> milliseconds after the present
  \<open>now\<close>, and \<^verbatim>\<open>absolute_time_diff_us(from, to)\<close> is \<open>to - from\<close>.
\<close>

definition make_timeout_time_ms :: "int \<Rightarrow> int \<Rightarrow> int" where
  "make_timeout_time_ms now ms = now + ms * 1000"

definition absolute_time_diff_us :: "int \<Rightarrow> int \<Rightarrow> int" where
  "absolute_time_diff_us from_t to_t = to_t - from_t"

text \<open>The state of the main loop of \<^verbatim>\<open>emul_start\<close>: the file-scope state and the local
  variable \<^verbatim>\<open>startDownloadTime\<close>.\<close>

record loop_state =
  app :: app_state
  startDownloadTime :: int

text \<open>The \<^verbatim>\<open>switch (download_getStatus())\<close> of one iteration, lines 1090--1119;
  \<open>now\<close> is the clock at that iteration.\<close>

definition download_step :: "engine \<Rightarrow> uint32_t \<Rightarrow> int \<Rightarrow> loop_state \<Rightarrow> fault + loop_state" where
  "download_step engine currentIp now ls =
     (case dl_status (app ls) of
        DOWNLOAD_STATUS_REQUESTED \<Rightarrow>
          Inr (ls\<lparr>startDownloadTime := make_timeout_time_ms now DOWNLOAD_START_MS,
                  app := download_setStatus DOWNLOAD_STATUS_NOT_STARTED (app ls)\<rparr>)
      | DOWNLOAD_STATUS_NOT_STARTED \<Rightarrow>
          if absolute_time_diff_us now (startDownloadTime ls) < 0
          then Inr (ls\<lparr>app := engine_call engine download_start (app ls)\<rparr>)
          else Inr ls
      | DOWNLOAD_STATUS_IN_PROGRESS \<Rightarrow>
          Inr (ls\<lparr>app := engine_call engine download_poll (app ls)\<rparr>)
      | DOWNLOAD_STATUS_COMPLETED \<Rightarrow>
          (case romDownloadUpdate currentIp
                  (download_setStatus DOWNLOAD_STATUS_IDLE
                     (engine_call engine download_confirm
                        (engine_call engine download_finish (app ls)))) of
             Inl e \<Rightarrow> Inl e
           | Inr a \<Rightarrow> Inr (ls\<lparr>app := a\<rparr>))
      | DOWNLOAD_STATUS_IDLE \<Rightarrow> Inr ls)"

text \<open>Successive iterations of the main loop in which the terminal delivers no command
  and the engine leaves its status alone between iterations; the list gives the clock
  at each iteration.\<close>

fun download_steps :: "engine \<Rightarrow> uint32_t \<Rightarrow> int list \<Rightarrow> loop_state \<Rightarrow> fault + loop_state" where
  "download_steps engine currentIp [] ls = Inr ls"
| "download_steps engine currentIp (now # clock) ls =
     (case download_step engine currentIp now ls of
        Inl e \<Rightarrow> Inl e
      | Inr ls1 \<Rightarrow> download_steps engine currentIp clock ls1)"


section \<open>The command table and the main loop\<close>

text \<open>
  Modelled from the spec: the settings commands of the terminal
  (\<^verbatim>\<open>term_cmdSettings\<close>, \<^verbatim>\<open>term_cmdPrint\<close>, \<^verbatim>\<open>term_cmdSave\<close>, \<^verbatim>\<open>term_cmdErase\<close>,
  \<^verbatim>\<open>term_cmdGet\<close>, \<^verbatim>\<open>term_cmdPutInt\<close>, \<^verbatim>\<open>term_cmdPutBool\<close>, \<^verbatim>\<open>term_cmdPutString\<close>)
  are handled by an external collaborator: they print, and read or write the
  configuration store. They are compiled apart from \<^verbatim>\<open>emul.c\<close>, whose file-scope
  variables are all \<^verbatim>\<open>static\<close>. Such a command is given by what it prints and by the
  configuration store, working copy and saved copy, that it leaves.
\<close>

definition term_cmd :: "term_event list \<Rightarrow> settings \<Rightarrow> settings \<Rightarrow> app_state \<Rightarrow> app_state" where
  "term_cmd out ctx saved st =
     st\<lparr>term_out := term_out st @ out, aconfig := ctx, aconfig_saved := saved\<rparr>"

text \<open>The handlers of the table \<^verbatim>\<open>commands[]\<close>, in the order of the table. A handler
  receives the rest of the input line; only \<^verbatim>\<open>cmdUnknown\<close>, the handler of every
  line that starts with no key of the table, reads it.\<close>

datatype command =
    CmdMenu
  | CmdNext
  | CmdPrev
  | CmdHelp
  | CmdCard
  | CmdNetwork
  | CmdLaunch
  | CmdDelay
  | CmdExit
  | CmdBooster
  | TermCmd "term_event list" settings settings
  | CmdUnknown string

definition dispatch ::
  "platform \<Rightarrow> fatfs \<Rightarrow> engine \<Rightarrow> uint32_t \<Rightarrow> command \<Rightarrow> app_state \<Rightarrow> fault + app_state" where
  "dispatch pf fs engine currentIp c st =
     (case c of
        CmdMenu \<Rightarrow> Inr (cmdMenu currentIp st)
      | CmdNext \<Rightarrow> cmdNext st
      | CmdPrev \<Rightarrow> cmdPrev st
      | CmdHelp \<Rightarrow> Inr (cmdHelp st)
      | CmdCard \<Rightarrow> cmdCard fs st
      | CmdNetwork \<Rightarrow> cmdNetwork pf fs st
      | CmdLaunch \<Rightarrow> Inr (cmdLaunch pf fs st)
      | CmdDelay \<Rightarrow> Inr (cmdDelay currentIp st)
      | CmdExit \<Rightarrow> Inr (cmdExit st)
      | CmdBooster \<Rightarrow> Inr (cmdBooster st)
      | TermCmd out ctx saved \<Rightarrow> Inr (term_cmd out ctx saved st)
      | CmdUnknown arg \<Rightarrow> cmdUnknown engine currentIp arg st)"

text \<open>
  Modelled from the spec: \<^verbatim>\<open>term_loop()\<close> services one pass of terminal input; it
  dispatches the lines received, one after the other, to their handlers.
\<close>

fun term_loop ::
  "platform \<Rightarrow> fatfs \<Rightarrow> engine \<Rightarrow> uint32_t \<Rightarrow> command list \<Rightarrow> app_state \<Rightarrow> fault + app_state" where
  "term_loop pf fs engine currentIp [] st = Inr st"
| "term_loop pf fs engine currentIp (c # cs) st =
     (case dispatch pf fs engine currentIp c st of
        Inl e \<Rightarrow> Inl e
      | Inr st1 \<Rightarrow> term_loop pf fs engine currentIp cs st1)"

text \<open>What one iteration of the main loop finds: the card, the behaviour of the download
  engine, the address of the network, the lines typed and the clock.\<close>

record iteration =
  it_card :: fatfs
  it_engine :: engine
  it_ip :: uint32_t
  it_typed :: "command list"
  it_clock :: int

text \<open>The body of \<^verbatim>\<open>while (getKeepActive())\<close>: the terminal, then the download
  switch.\<close>

definition loop_body :: "platform \<Rightarrow> iteration \<Rightarrow> loop_state \<Rightarrow> fault + loop_state" where
  "loop_body pf it ls =
     (case term_loop pf (it_card it) (it_engine it) (it_ip it) (it_typed it) (app ls) of
        Inl e \<Rightarrow> Inl e
      | Inr a \<Rightarrow>
          download_step (it_engine it) (it_ip it) (it_clock it) (ls\<lparr>app := a\<rparr>))"

text \<open>The main loop over the iterations given; it stops when \<^verbatim>\<open>keepActive\<close> is
  false.\<close>

fun main_loop :: "platform \<Rightarrow> iteration list \<Rightarrow> loop_state \<Rightarrow> fault + loop_state" where
  "main_loop pf [] ls = Inr ls"
| "main_loop pf (it # its) ls =
     (if \<not> keepActive (app ls) then Inr ls
      else case loop_body pf it ls of
             Inl e \<Rightarrow> Inl e
           | Inr ls1 \<Rightarrow> main_loop pf its ls1)"

section \<open>Specification of the flash image\<close>

text \<open>
  The definitions of this section follow the words of the specification, not the code:
  the payload is read in chunks of at most one erase sector until nothing is left, a
  chunk is padded up to the programming page with the fill byte, swapped, erased and
  programmed, and the offset advances by the unpadded length of the chunk.
\<close>

function spec_chunks :: "nat \<Rightarrow> 'a list \<Rightarrow> 'a list list" where
  "spec_chunks n xs = (if n = 0 \<or> xs = [] then [] else take n xs # spec_chunks n (drop n xs))"
  by pat_completeness auto
termination
  by (relation "measure (\<lambda>(n, xs). length xs)") auto

declare spec_chunks.simps [simp del]

definition spec_pad :: "platform \<Rightarrow> uint8_t list \<Rightarrow> uint8_t list" where
  "spec_pad pf c =
     c @ replicate ((FLASH_PAGE_SIZE pf - length c mod FLASH_PAGE_SIZE pf) mod FLASH_PAGE_SIZE pf)
           (char_of (FLASH_PAGE_SIZE pf))"

fun spec_programmed :: "platform \<Rightarrow> uint32_t \<Rightarrow> uint8_t list list \<Rightarrow> flash_op list" where
  "spec_programmed pf off [] = []"
| "spec_programmed pf off (c # cs) =
     [save_and_disable_interrupts,
      flash_range_erase off (length (spec_pad pf c)),
      flash_range_program off (CHANGE_ENDIANESS_BLOCK16 (spec_pad pf c)),
      restore_interrupts]
     @ spec_programmed pf (off + of_nat (length c)) cs"

text \<open>The bytes of the file that are the image: the test of lines 102--127 of the
  code (a file longer than 4 bytes whose size minus 4 is a multiple of the sector and
  whose first 4 bytes are zero loses these 4 bytes).\<close>

definition payload :: "platform \<Rightarrow> uint8_t list \<Rightarrow> uint8_t list" where
  "payload pf content =
     (if length content > 4 \<and> (length content - 4) mod FLASH_SECTOR_SIZE pf = 0 \<and>
         take 4 content = [CHR 0x00, CHR 0x00, CHR 0x00, CHR 0x00]
      then drop 4 content else content)"

text \<open>A small platform and a card holding one file, for concrete instances.\<close>

definition small_flash :: platform where
  "small_flash = \<lparr>FLASH_SECTOR_SIZE = 8, FLASH_PAGE_SIZE = 4, XIP_BASE = 16,
     rom_temp_start = 48\<rparr>"

definition card_with :: "uint8_t list \<Rightarrow> fatfs" where
  "card_with content =
     \<lparr>files = (\<lambda>p. (FR_OK, content, [])), dirs = (\<lambda>p. (FR_ERR 5, []))\<rparr>"

text \<open>A card on which nothing can be opened.\<close>

definition no_card :: fatfs where
  "no_card = \<lparr>files = (\<lambda>p. (FR_ERR 4, [], [])), dirs = (\<lambda>p. (FR_ERR 5, []))\<rparr>"

text \<open>An engine that leaves its status alone.\<close>

definition idle_engine :: engine where
  "idle_engine c s = s"

text \<open>A remote catalog of two entries being browsed: the state after the browse command.\<close>

definition browsing_two :: app_state where
  "browsing_two = init_state
     \<lparr>roms := (roms init_state)
         [0 := \<lparr>filename = ''a.rom'', path = ''/roms/a.rom'', name = ''A'',
                 description = [], tags = [], rom_size = 64\<rparr>,
          1 := \<lparr>filename = ''b.rom'', path = ''/roms/b.rom'', name = ''B'',
                 description = [], tags = [], rom_size = 128\<rparr>],
      romsCount := 2, maxRomPages := 1,
      menuLevel := TERM_ROMS_MENU_BROWSE_NETWORK\<rparr>"

text \<open>Pick row \<open>n\<close>, confirm with RETURN, and let the main loop see the download
  completed.\<close>

definition download_row :: "string \<Rightarrow> fault + loop_state" where
  "download_row n =
     (case cmdUnknown idle_engine 0 n browsing_two of
        Inl e \<Rightarrow> Inl e
      | Inr s1 \<Rightarrow>
          (case cmdUnknown idle_engine 0 [] s1 of
             Inl e \<Rightarrow> Inl e
           | Inr s2 \<Rightarrow>
               download_step idle_engine 0 0
                 \<lparr>app = s2\<lparr>dl_status := DOWNLOAD_STATUS_COMPLETED\<rparr>, startDownloadTime = 0\<rparr>))"

text \<open>A catalog document of one data line with percent-encoded fields.\<close>

definition quoted :: "string \<Rightarrow> string" where
  "quoted s = CHR 0x22 # s @ [CHR 0x22]"

definition encoded_catalog :: "uint8_t list" where
  "encoded_catalog =
     ''URL,Name,Description,Tags,Size (KB)'' @ [CHR 0x0A] @
     quoted ''%41%42.rom'' @ '','' @ quoted ''%41%42'' @ '','' @ quoted ''d%20e'' @ '','' @
     quoted ''%74'' @ '','' @ quoted ''12'' @ [CHR 0x0A]"

definition configured :: app_state where
  "configured = init_state\<lparr>aconfig := [ACONFIG_PARAM_ROMS_FOLDER \<mapsto> ''/roms'']\<rparr>"

text \<open>A catalog document with a header line and no data line.\<close>

definition header_only_catalog :: "uint8_t list" where
  "header_only_catalog = ''URL,Name,Description,Tags,Size (KB)'' @ [CHR 0x0A]"

text \<open>A catalog document of three data lines that are not in order.\<close>

definition csv_row :: "string \<Rightarrow> string \<Rightarrow> string \<Rightarrow> string \<Rightarrow> string \<Rightarrow> uint8_t list" where
  "csv_row url nm descr tgs sz =
     quoted url @ '','' @ quoted nm @ '','' @ quoted descr @ '','' @ quoted tgs @ '','' @
     quoted sz @ [CHR 0x0A]"

definition three_row_catalog :: "uint8_t list" where
  "three_row_catalog =
     ''URL,Name,Description,Tags,Size (KB)'' @ [CHR 0x0A] @
     csv_row ''c.rom'' ''Gamma'' ''third'' ''x'' ''64'' @
     csv_row ''A.rom'' ''Alpha'' ''first'' ''y'' ''128'' @
     csv_row ''b.rom'' ''Beta'' ''second'' ''z'' ''256''"

text \<open>The names of 22 ROM files, in mixed case and not in order, and the same names in
  case-insensitive order.\<close>

definition rom_names :: "string list" where
  "rom_names = map (\<lambda>c. [c] @ ''.rom'') ''cBeDgFiHkJmLoNqPsRuTwV''"

definition rom_names_sorted :: "string list" where
  "rom_names_sorted =
     [''B.rom'', ''c.rom'', ''D.rom'', ''e.rom'', ''F.rom'', ''g.rom'', ''H.rom'', ''i.rom'',
      ''J.rom'', ''k.rom'', ''L.rom'', ''m.rom'', ''N.rom'', ''o.rom'', ''P.rom'', ''q.rom'',
      ''R.rom'', ''s.rom'', ''T.rom'', ''u.rom'', ''V.rom'', ''w.rom'']"

text \<open>A card on which every file is the catalog document of three lines, and every
  directory holds a subdirectory, a hidden file, a file that is no ROM image and the 22
  ROM files; an empty name ends the directory.\<close>

definition full_card :: fatfs where
  "full_card =
     \<lparr>files = (\<lambda>p. (FR_OK, three_row_catalog, [])),
      dirs = (\<lambda>p. (FR_OK,
        [(FR_OK, \<lparr>fname = ''games'', fattrib = AM_DIR\<rparr>),
         (FR_OK, \<lparr>fname = ''.hidden.rom'', fattrib = 0x20\<rparr>),
         (FR_OK, \<lparr>fname = ''readme.txt'', fattrib = 0x20\<rparr>)] @
        map (\<lambda>n. (FR_OK, \<lparr>fname = n, fattrib = 0x20\<rparr>)) rom_names @
        [(FR_OK, \<lparr>fname = [], fattrib = 0\<rparr>)]))\<rparr>"

text \<open>An engine whose download is complete as soon as it is started.\<close>

definition instant_engine :: engine where
  "instant_engine c s = (case c of download_start \<Rightarrow> DOWNLOAD_STATUS_COMPLETED | _ \<Rightarrow> s)"

text \<open>A session at the terminal, from the state at the start of the main loop. The user
  browses the remote catalog and picks row 2; returns to the list with another key and
  uses the other commands, browsing the remote catalog again; picks row 3 and confirms,
  and the download completes in the same iteration; leaves for the booster. The lines of
  the last iteration are never read.\<close>

definition boot :: loop_state where
  "boot = \<lparr>app = configured, startDownloadTime = 0\<rparr>"

definition typing :: "command list \<Rightarrow> iteration" where
  "typing cs = \<lparr>it_card = full_card, it_engine = instant_engine, it_ip = 0, it_typed = cs,
     it_clock = 0\<rparr>"

definition session :: "iteration list" where
  "session =
     [typing [CmdNetwork, CmdUnknown ''2''],
      typing [CmdUnknown ''x'', CmdMenu, CmdHelp, CmdDelay,
              TermCmd [term_printString ''ok''] [ACONFIG_PARAM_ROMS_FOLDER \<mapsto> ''/roms''] Map.empty,
              CmdLaunch, CmdExit, CmdNetwork, CmdNext, CmdPrev],
      typing [CmdUnknown ''3'', CmdUnknown []],
      typing [CmdBooster],
      typing [CmdNetwork, CmdUnknown ''1'']]"

text \<open>The selected index after a run, \<open>None\<close> when the run ends in a fault.\<close>

definition selected :: "fault + loop_state \<Rightarrow> int option" where
  "selected r = (case r of Inl e \<Rightarrow> None | Inr ls \<Rightarrow> Some (downloadRomSelected (app ls)))"

text \<open>Pick row \<open>n\<close>, return to the list with another key, and let the main loop see a
  download completed.\<close>

definition abandon_row :: "string \<Rightarrow> fault + loop_state" where
  "abandon_row n =
     (case cmdUnknown idle_engine 0 n browsing_two of
        Inl e \<Rightarrow> Inl e
      | Inr s1 \<Rightarrow>
          (case cmdUnknown idle_engine 0 ''x'' s1 of
             Inl e \<Rightarrow> Inl e
           | Inr s2 \<Rightarrow>
               download_step idle_engine 0 0
                 \<lparr>app = s2\<lparr>dl_status := DOWNLOAD_STATUS_COMPLETED\<rparr>, startDownloadTime = 0\<rparr>))"


section \<open>Specification of the catalog\<close>

text \<open>
  The definitions of this section follow the words of the specification. A file name is
  compared case-insensitively through its lower-cased characters, as numbers, in
  lexicographic order; the catalog is the first \<^verbatim>\<open>romsCount\<close> slots of the array.
\<close>

definition casefold :: "string \<Rightarrow> nat list" where
  "casefold s = map (\<lambda>c. of_char (tolower c)) (cstr s)"

definition catalog :: "app_state \<Rightarrow> ROM list" where
  "catalog st = take (nat (romsCount st)) (roms st)"

definition sorted_by_filename :: "ROM list \<Rightarrow> bool" where
  "sorted_by_filename rs = sorted (map (\<lambda>r. casefold (filename r)) rs)"

definition catalog_ok :: "app_state \<Rightarrow> bool" where
  "catalog_ok st \<longleftrightarrow>
     sorted_by_filename (catalog st) \<and>
     0 \<le> romsCount st \<and> romsCount st \<le> 100 \<and>
     length (roms st) = 100 \<and>
     maxRomPages st = \<lceil>real_of_int (romsCount st) / 20\<rceil>"

definition page_in_range :: "app_state \<Rightarrow> bool" where
  "page_in_range st \<longleftrightarrow> 0 \<le> currentRomPage st \<and> currentRomPage st < maxRomPages st"

text \<open>A sequence of page-navigation commands.\<close>

datatype nav = Next | Prev

fun navigate :: "nav list \<Rightarrow> app_state \<Rightarrow> fault + app_state" where
  "navigate [] st = Inr st"
| "navigate (Next # cmds) st =
     (case cmdNext st of Inl e \<Rightarrow> Inl e | Inr st1 \<Rightarrow> navigate cmds st1)"
| "navigate (Prev # cmds) st =
     (case cmdPrev st of Inl e \<Rightarrow> Inl e | Inr st1 \<Rightarrow> navigate cmds st1)"

text \<open>The catalog document opens and its header line is read.\<close>

definition csv_readable :: "platform \<Rightarrow> fatfs \<Rightarrow> string \<Rightarrow> bool" where
  "csv_readable pf fs csvFilepath \<longleftrightarrow>
     fst (files fs csvFilepath) = FR_OK \<and>
     fst (f_gets (FLASH_PAGE_SIZE pf * 2) (snd (f_open fs csvFilepath))) \<noteq> None"

text \<open>What a run leaves of the catalog: the count, the page count, the current page and
  the file names in order; \<open>None\<close> when the run ends in a fault.\<close>

definition listing :: "fault + app_state \<Rightarrow> (int \<times> int \<times> int \<times> string list) option" where
  "listing r =
     (case r of
        Inl e \<Rightarrow> None
      | Inr st \<Rightarrow>
          Some (romsCount st, maxRomPages st, currentRomPage st, map filename (catalog st)))"



section \<open>Properties of the flash provisioner\<close>

lemma round_up_page:
  fixes n p :: nat
  assumes "0 < p" "n mod p \<noteq> 0"
  shows "((n + p - 1) div p) * p - n = p - n mod p"
proof -
  define q where "q = n div p"
  define r where "r = n mod p"
  have n: "n = r + q * p"
    by (simp add: q_def r_def)
  have r: "0 < r" "r < p"
    using assms by (simp_all add: r_def)
  have "n + p - 1 = (r - 1) + (q + 1) * p"
    using r by (simp add: n algebra_simps)
  then have "(n + p - 1) div p = (r - 1) div p + (q + 1)"
    using assms(1) div_mult_self1 [of p "r - 1" "q + 1"] by (simp only: add.commute)
  also have "(r - 1) div p = 0"
    using r by simp
  finally have "((n + p - 1) div p) * p = q * p + p"
    by simp
  then show ?thesis
    using r by (simp add: n)
qed

lemma padded_buffer_spec:
  assumes "0 < FLASH_PAGE_SIZE pf"
  shows "padded_buffer pf got = spec_pad pf got"
proof (cases "length got mod FLASH_PAGE_SIZE pf = 0")
  case True
  then show ?thesis
    by (simp add: padded_buffer_def spec_pad_def)
next
  case False
  then have "length got mod FLASH_PAGE_SIZE pf < FLASH_PAGE_SIZE pf"
    using assms by simp
  with False show ?thesis
    using round_up_page [OF assms False]
    by (simp add: padded_buffer_def spec_pad_def Let_def)
qed

lemma f_read_cases:
  assumes "f_read fp n = (res, got, fp')"
  shows "(res \<noteq> FR_OK \<and> got = []) \<or>
         (res = FR_OK \<and> got = take n (drop (fptr fp) (fdata fp)) \<and>
          fdata fp' = fdata fp \<and> fptr fp' = fptr fp + length got \<and>
          ferrs fp' = tl (ferrs fp))"
  using assms
  by (auto simp: f_read_def next_result_def Let_def split: list.splits if_splits)

lemma drop_read: "drop (p + length (take n (drop p xs))) xs = drop n (drop p xs)"
  by (cases "n \<le> length xs - p") (simp_all add: min_def add.commute)

lemma spec_chunks_Cons:
  "0 < n \<Longrightarrow> xs \<noteq> [] \<Longrightarrow> spec_chunks n xs = take n xs # spec_chunks n (drop n xs)"
  by (subst spec_chunks.simps) simp

lemma spec_chunks_Nil: "spec_chunks n [] = []"
  by (subst spec_chunks.simps) simp

lemma length_swap16 [simp]: "length (CHANGE_ENDIANESS_BLOCK16 xs) = length xs"
  by (induction xs rule: CHANGE_ENDIANESS_BLOCK16.induct) auto

lemma program_chunk_spec:
  "0 < FLASH_PAGE_SIZE pf \<Longrightarrow>
   program_chunk pf off got @ rest = spec_programmed pf off [got] @ rest"
  by (simp add: program_chunk_def padded_buffer_spec Let_def)

lemma flash_loop_refines:
  "0 < FLASH_SECTOR_SIZE pf \<Longrightarrow> 0 < FLASH_PAGE_SIZE pf \<Longrightarrow>
   flash_loop pf fp off = (FR_OK, ops) \<Longrightarrow>
   ops = spec_programmed pf off
           (spec_chunks (FLASH_SECTOR_SIZE pf) (drop (fptr fp) (fdata fp)))"
proof (induction pf fp off arbitrary: ops rule: flash_loop.induct)
  case (1 pf fp off)
  let ?n = "FLASH_SECTOR_SIZE pf"
  let ?rest = "drop (fptr fp) (fdata fp)"
  obtain res got fp' where rd: "f_read fp ?n = (res, got, fp')"
    by (cases "f_read fp ?n") auto
  from f_read_cases [OF rd] "1.prems"(3) rd flash_loop.simps [of pf fp off]
  have ok: "res = FR_OK" "got = take ?n ?rest" "fdata fp' = fdata fp"
    "fptr fp' = fptr fp + length got"
    by (auto split: if_splits prod.splits)
  show ?case
  proof (cases "got = []")
    case True
    with ok "1.prems"(1) have "?rest = []"
      by (cases ?rest) auto
    moreover from True rd ok "1.prems"(3) flash_loop.simps [of pf fp off] have "ops = []"
      by simp
    ultimately show ?thesis
      by (simp add: spec_chunks_Nil)
  next
    case False
    obtain res' ops' where rec: "flash_loop pf fp' (off + of_nat (length got)) = (res', ops')"
      by (cases "flash_loop pf fp' (off + of_nat (length got))") auto
    from False rd ok rec "1.prems"(3) flash_loop.simps [of pf fp off]
    have res': "res' = FR_OK" and ops: "ops = program_chunk pf off got @ ops'"
      by simp_all
    have "ops' = spec_programmed pf (off + of_nat (length got))
                   (spec_chunks ?n (drop (fptr fp') (fdata fp')))"
      using "1.IH" [of res "(got, fp')" got fp' ops'] "1.prems"(1,2) False ok rd rec res'
      by simp
    moreover have "drop (fptr fp') (fdata fp') = drop ?n ?rest"
      using ok drop_read [of "fptr fp" ?n "fdata fp"] by simp
    moreover from False ok have "?rest \<noteq> []"
      by auto
    ultimately show ?thesis
      using ops ok "1.prems"(1,2)
      by (simp add: spec_chunks_Cons program_chunk_def padded_buffer_spec Let_def)
  qed
qed


lemma f_read_eq:
  "f_read fp n =
     (if (case ferrs fp of [] \<Rightarrow> FR_OK | r # rs \<Rightarrow> r) \<noteq> FR_OK
      then (case ferrs fp of [] \<Rightarrow> FR_OK | r # rs \<Rightarrow> r, [], fp\<lparr>ferrs := tl (ferrs fp)\<rparr>)
      else (FR_OK, take n (drop (fptr fp) (fdata fp)),
            fp\<lparr>ferrs := tl (ferrs fp),
               fptr := fptr fp + length (take n (drop (fptr fp) (fdata fp)))\<rparr>))"
  by (cases "ferrs fp") (simp_all add: f_read_def next_result_def Let_def)

lemma flash_loop_succeeds:
  "set (ferrs fp) \<subseteq> {FR_OK} \<Longrightarrow> fst (flash_loop pf fp off) = FR_OK"
proof (induction pf fp off rule: flash_loop.induct)
  case (1 pf fp off)
  let ?n = "FLASH_SECTOR_SIZE pf"
  obtain res got fp' where rd: "f_read fp ?n = (res, got, fp')"
    by (cases "f_read fp ?n") auto
  from "1.prems" have hd_ok: "(case ferrs fp of [] \<Rightarrow> FR_OK | r # rs \<Rightarrow> r) = FR_OK"
    by (cases "ferrs fp") auto
  from rd hd_ok have ok: "res = FR_OK" "ferrs fp' = tl (ferrs fp)"
    by (auto simp: f_read_eq)
  from "1.prems" ok have errs': "set (ferrs fp') \<subseteq> {FR_OK}"
    by (cases "ferrs fp") auto
  show ?case
  proof (cases "got = []")
    case True
    with rd ok show ?thesis by (simp add: flash_loop.simps [of pf fp off])
  next
    case False
    with "1.IH" [of res "(got, fp')" got fp'] rd ok errs'
    have "fst (flash_loop pf fp' (off + of_nat (length got))) = FR_OK"
      by simp
    with False rd ok show ?thesis
      by (auto simp: flash_loop.simps [of pf fp off] split: prod.splits)
  qed
qed

lemma flash_loop_cong:
  "drop (fptr a) (fdata a) = drop (fptr b) (fdata b) \<Longrightarrow> ferrs a = ferrs b \<Longrightarrow>
   flash_loop pf a off = flash_loop pf b off"
proof (induction pf a off arbitrary: b rule: flash_loop.induct)
  case (1 pf a off)
  let ?n = "FLASH_SECTOR_SIZE pf"
  let ?got = "take ?n (drop (fptr a) (fdata a))"
  let ?a' = "a\<lparr>ferrs := tl (ferrs a), fptr := fptr a + length ?got\<rparr>"
  let ?b' = "b\<lparr>ferrs := tl (ferrs b), fptr := fptr b + length ?got\<rparr>"
  show ?case
  proof (cases "(case ferrs a of [] \<Rightarrow> FR_OK | r # rs \<Rightarrow> r) \<noteq> FR_OK \<or> ?got = []")
    case True
    with "1.prems" show ?thesis
      by (auto simp: flash_loop.simps [of pf a off] flash_loop.simps [of pf b off] f_read_eq)
  next
    case False
    then have rd: "f_read a ?n = (FR_OK, ?got, ?a')"
      by (simp add: f_read_eq)
    have "drop (fptr ?a') (fdata ?a') = drop (fptr ?b') (fdata ?b')"
      using "1.prems"(1) drop_read [of "fptr a" ?n "fdata a"] drop_read [of "fptr b" ?n "fdata b"]
      by simp
    with "1.IH" [of FR_OK "(?got, ?a')" ?got ?a' ?b'] rd False "1.prems"
    have "flash_loop pf ?a' (off + of_nat (length ?got)) = flash_loop pf ?b' (off + of_nat (length ?got))"
      by simp
    with False "1.prems" show ?thesis
      by (simp add: flash_loop.simps [of pf a off] flash_loop.simps [of pf b off] f_read_eq)
  qed
qed


lemma f_lseek_eq:
  "f_lseek fp ofs =
     (if (case ferrs fp of [] \<Rightarrow> FR_OK | r # rs \<Rightarrow> r) \<noteq> FR_OK
      then (case ferrs fp of [] \<Rightarrow> FR_OK | r # rs \<Rightarrow> r, fp\<lparr>ferrs := tl (ferrs fp)\<rparr>)
      else (FR_OK, fp\<lparr>ferrs := tl (ferrs fp), fptr := min ofs (length (fdata fp))\<rparr>))"
  by (cases "ferrs fp") (simp_all add: f_lseek_def next_result_def)

lemma take4_nth:
  "4 \<le> length xs \<Longrightarrow> take 4 xs = [xs ! 0, xs ! 1, xs ! 2, xs ! 3]"
  by (auto simp: list_eq_iff_nth_eq less_Suc_eq numeral_eq_Suc)

lemma header_is_zero:
  assumes "4 < length content"
  shows "(take 4 content ! 0 = CHR 0x00 \<and> take 4 content ! 1 = CHR 0x00 \<and>
          take 4 content ! 2 = CHR 0x00 \<and> take 4 content ! 3 = CHR 0x00)
         \<longleftrightarrow> take 4 content = [CHR 0x00, CHR 0x00, CHR 0x00, CHR 0x00]"
  using assms take4_nth [of content] by auto

text \<open>What the routine does once the file is open, by the three ways into the loop.\<close>

lemma storeFileToFlash_opened:
  assumes "files fs file_name = (FR_OK, content, errs)"
  shows "storeFileToFlash pf fs file_name flashAddress =
     (let fp = \<lparr>fdata = content, fptr = 0, ferrs = errs\<rparr>; off = flashAddress - XIP_BASE pf in
      if length content > 4 \<and> (length content - 4) mod FLASH_SECTOR_SIZE pf = 0 then
        (if (case errs of [] \<Rightarrow> FR_OK | r # rs \<Rightarrow> r) \<noteq> FR_OK
         then (case errs of [] \<Rightarrow> FR_OK | r # rs \<Rightarrow> r, [])
         else if take 4 content = [CHR 0x00, CHR 0x00, CHR 0x00, CHR 0x00]
         then flash_loop pf (fp\<lparr>ferrs := tl errs, fptr := 4\<rparr>) off
         else if (case tl errs of [] \<Rightarrow> FR_OK | r # rs \<Rightarrow> r) \<noteq> FR_OK
         then (case tl errs of [] \<Rightarrow> FR_OK | r # rs \<Rightarrow> r, [])
         else flash_loop pf (fp\<lparr>ferrs := tl (tl errs), fptr := 0\<rparr>) off)
      else flash_loop pf fp off)"
proof (cases "length content > 4 \<and> (length content - 4) mod FLASH_SECTOR_SIZE pf = 0")
  case False
  with assms show ?thesis
    by (auto simp: storeFileToFlash_def f_open_def f_size_def Let_def)
next
  case True
  then have len: "4 < length content"
    by simp
  have min4: "min (length content) 4 = 4"
    using len by simp
  show ?thesis
    using assms True header_is_zero [OF len]
    by (simp add: storeFileToFlash_def f_open_def f_size_def f_tell_def Let_def f_read_eq
        f_lseek_eq min4)
qed


lemma spec_chunks_facts:
  "0 < n \<Longrightarrow>
   concat (spec_chunks n xs) = xs \<and>
   (\<forall>c \<in> set (spec_chunks n xs). 0 < length c \<and> length c \<le> n) \<and>
   (\<forall>c \<in> set (butlast (spec_chunks n xs)). length c = n)"
proof (induction n xs rule: spec_chunks.induct)
  case (1 n xs)
  show ?case
  proof (cases "xs = []")
    case True
    then show ?thesis by (simp add: spec_chunks_Nil)
  next
    case False
    define tl_chunks where "tl_chunks = spec_chunks n (drop n xs)"
    have unfold: "spec_chunks n xs = take n xs # tl_chunks"
      using spec_chunks_Cons [OF "1.prems" False] by (simp only: tl_chunks_def)
    have IH: "concat tl_chunks = drop n xs"
      "\<forall>c \<in> set tl_chunks. 0 < length c \<and> length c \<le> n"
      "\<forall>c \<in> set (butlast tl_chunks). length c = n"
      using "1.IH" False "1.prems" unfolding tl_chunks_def by blast+
    have full: "tl_chunks \<noteq> [] \<Longrightarrow> length (take n xs) = n"
    proof -
      assume "tl_chunks \<noteq> []"
      then have "drop n xs \<noteq> []"
        unfolding tl_chunks_def using spec_chunks_Nil [of n] by (cases "drop n xs") auto
      then show ?thesis by simp
    qed
    have "concat (spec_chunks n xs) = xs"
      using IH(1) by (simp add: unfold)
    moreover have "\<forall>c \<in> set (spec_chunks n xs). 0 < length c \<and> length c \<le> n"
      using IH(2) False "1.prems" by (simp add: unfold)
    moreover have "\<forall>c \<in> set (butlast (spec_chunks n xs)). length c = n"
      using IH(3) full by (simp add: unfold)
    ultimately show ?thesis by blast
  qed
qed

lemma spec_pad_facts:
  assumes "0 < FLASH_PAGE_SIZE pf"
  shows "FLASH_PAGE_SIZE pf dvd length (spec_pad pf c)"
    and "length (spec_pad pf c) < length c + FLASH_PAGE_SIZE pf"
proof -
  let ?p = "FLASH_PAGE_SIZE pf"
  define q where "q = length c div ?p"
  define r where "r = length c mod ?p"
  have n: "length c = r + q * ?p"
    by (simp add: q_def r_def)
  have r: "r < ?p"
    using assms by (simp add: r_def)
  have len: "length (spec_pad pf c) = length c + (?p - r) mod ?p"
    by (simp add: spec_pad_def r_def)
  show "?p dvd length (spec_pad pf c)"
  proof (cases "r = 0")
    case True
    with n len show ?thesis by simp
  next
    case False
    with r have "(?p - r) mod ?p = ?p - r"
      by simp
    with len n r have "length (spec_pad pf c) = (q + 1) * ?p"
      by simp
    then show ?thesis
      by (simp only: dvd_triv_right)
  qed
  show "length (spec_pad pf c) < length c + ?p"
    using assms len by simp
qed

lemma flash_loop_total:
  assumes "0 < FLASH_SECTOR_SIZE pf" "0 < FLASH_PAGE_SIZE pf" "set (ferrs fp) \<subseteq> {FR_OK}"
  shows "flash_loop pf fp off =
           (FR_OK, spec_programmed pf off
                     (spec_chunks (FLASH_SECTOR_SIZE pf) (drop (fptr fp) (fdata fp))))"
proof -
  obtain res ops where r: "flash_loop pf fp off = (res, ops)"
    by (cases "flash_loop pf fp off") auto
  with flash_loop_succeeds [OF assms(3), of pf off] have "res = FR_OK"
    by simp
  with r flash_loop_refines [OF assms(1,2), of fp off ops] show ?thesis
    by simp
qed

lemma sector_minus_header:
  fixes k n :: nat
  assumes "4 < n" "1 \<le> k"
  shows "4 < k * n" and "(k * n - 4) mod n \<noteq> 0"
proof -
  obtain j where k: "k = Suc j"
    using assms(2) by (cases k) auto
  show "4 < k * n"
    using assms(1) k by simp
  have "k * n - 4 = (n - 4) + j * n"
    using assms(1) k by simp
  then have "(k * n - 4) mod n = (n - 4) mod n"
    by simp
  with assms(1) show "(k * n - 4) mod n \<noteq> 0"
    by simp
qed

lemma spec_pad_fits:
  assumes "0 < FLASH_PAGE_SIZE pf" "FLASH_PAGE_SIZE pf dvd FLASH_SECTOR_SIZE pf"
    "length c \<le> FLASH_SECTOR_SIZE pf"
  shows "length (spec_pad pf c) \<le> FLASH_SECTOR_SIZE pf"
proof -
  let ?p = "FLASH_PAGE_SIZE pf"
  from spec_pad_facts(1) [OF assms(1), of c] obtain k where k: "length (spec_pad pf c) = ?p * k"
    by (auto simp: dvd_def)
  from assms(2) obtain m where m: "FLASH_SECTOR_SIZE pf = ?p * m"
    by (auto simp: dvd_def)
  from spec_pad_facts(2) [OF assms(1), of c] assms(3) k m have "?p * k < ?p * Suc m"
    by simp
  then have "k < Suc m"
    by (simp only: mult_less_cancel1)
  then have "k \<le> m"
    by simp
  with k m show ?thesis
    by simp
qed

text \<open>
  Claim C1. On a platform whose sector is a multiple of its page, every call of \<^verbatim>\<open>storeFileToFlash\<close>
  that returns \<^verbatim>\<open>FR_OK\<close> has made exactly the flash calls of the specification: the
  image is read in chunks of at most one erase sector (all but the last are full
  sectors, none is empty, together they are the image), the loop stops with success when
  a read returns no bytes, each chunk is padded with the fill byte to the next multiple
  of the programming page (fewer than a page of fill; the padded chunk fits the sector
  buffer), swapped, then erased and programmed between the interrupt calls, and the
  offset advances by the unpadded length of the chunk. The call does return \<^verbatim>\<open>FR_OK\<close> when the file opens and every
  transfer succeeds.
\<close>

theorem storeFileToFlash_chunked:
  assumes "0 < FLASH_SECTOR_SIZE pf" and "0 < FLASH_PAGE_SIZE pf"
    and "FLASH_PAGE_SIZE pf dvd FLASH_SECTOR_SIZE pf"
    and "files fs file_name = (r0, content, errs)"
  shows "(storeFileToFlash pf fs file_name flashAddress = (FR_OK, ops) \<longrightarrow>
            ops = spec_programmed pf (flashAddress - XIP_BASE pf)
                    (spec_chunks (FLASH_SECTOR_SIZE pf) (payload pf content))) \<and>
         (r0 = FR_OK \<and> set errs \<subseteq> {FR_OK} \<longrightarrow>
            fst (storeFileToFlash pf fs file_name flashAddress) = FR_OK) \<and>
         concat (spec_chunks (FLASH_SECTOR_SIZE pf) (payload pf content)) = payload pf content \<and>
         (\<forall>c \<in> set (spec_chunks (FLASH_SECTOR_SIZE pf) (payload pf content)).
            0 < length c \<and> length c \<le> FLASH_SECTOR_SIZE pf \<and>
            FLASH_PAGE_SIZE pf dvd length (spec_pad pf c) \<and>
            length (spec_pad pf c) < length c + FLASH_PAGE_SIZE pf \<and>
            length (spec_pad pf c) \<le> FLASH_SECTOR_SIZE pf) \<and>
         (\<forall>c \<in> set (butlast (spec_chunks (FLASH_SECTOR_SIZE pf) (payload pf content))).
            length c = FLASH_SECTOR_SIZE pf)"
proof -
  let ?n = "FLASH_SECTOR_SIZE pf"
  let ?off = "flashAddress - XIP_BASE pf"
  let ?fp = "\<lparr>fdata = content, fptr = 0, ferrs = errs\<rparr>"
  have refine: "ops = spec_programmed pf ?off (spec_chunks ?n (payload pf content))"
    if run: "storeFileToFlash pf fs file_name flashAddress = (FR_OK, ops)"
  proof -
    have r0: "r0 = FR_OK"
      using run assms(4) by (auto simp: storeFileToFlash_def f_open_def split: if_splits)
    note opened = storeFileToFlash_opened [OF assms(4) [unfolded r0], of pf flashAddress]
    show ?thesis
    proof (cases "length content > 4 \<and> (length content - 4) mod ?n = 0")
      case False
      with opened run have "flash_loop pf ?fp ?off = (FR_OK, ops)"
        by (simp add: Let_def)
      from flash_loop_refines [OF assms(1,2) this] False show ?thesis
        by (auto simp: payload_def)
    next
      case True
      show ?thesis
      proof (cases "take 4 content = [CHR 0x00, CHR 0x00, CHR 0x00, CHR 0x00]")
        case zero: True
        with opened run True
        have "flash_loop pf (?fp\<lparr>ferrs := tl errs, fptr := 4\<rparr>) ?off = (FR_OK, ops)"
          by (simp add: Let_def split: if_splits)
        from flash_loop_refines [OF assms(1,2) this] True zero show ?thesis
          by (auto simp: payload_def)
      next
        case nonzero: False
        with opened run True
        have "flash_loop pf (?fp\<lparr>ferrs := tl (tl errs), fptr := 0\<rparr>) ?off = (FR_OK, ops)"
          by (simp add: Let_def split: if_splits)
        from flash_loop_refines [OF assms(1,2) this] True nonzero show ?thesis
          by (auto simp: payload_def)
      qed
    qed
  qed
  have succeed: "fst (storeFileToFlash pf fs file_name flashAddress) = FR_OK"
    if ok: "r0 = FR_OK" "set errs \<subseteq> {FR_OK}"
  proof -
    note opened = storeFileToFlash_opened [OF assms(4) [unfolded ok(1)], of pf flashAddress]
    have e1: "(case errs of [] \<Rightarrow> FR_OK | r # rs \<Rightarrow> r) = FR_OK"
      and t1: "set (tl errs) \<subseteq> {FR_OK}"
      using ok(2) by (cases errs; auto)+
    have e2: "(case tl errs of [] \<Rightarrow> FR_OK | r # rs \<Rightarrow> r) = FR_OK"
      and t2: "set (tl (tl errs)) \<subseteq> {FR_OK}"
      using t1 by (cases "tl errs"; auto)+
    show ?thesis
      using opened e1 e2 ok(2) t1 t2
        flash_loop_succeeds [of ?fp pf ?off]
        flash_loop_succeeds [of "?fp\<lparr>ferrs := tl errs, fptr := 4\<rparr>" pf ?off]
        flash_loop_succeeds [of "?fp\<lparr>ferrs := tl (tl errs), fptr := 0\<rparr>" pf ?off]
      by (simp add: Let_def)
  qed
  from refine succeed spec_chunks_facts [OF assms(1), of "payload pf content"]
    spec_pad_facts [OF assms(2)] spec_pad_fits [OF assms(2,3)]
  show ?thesis
    by blast
qed

theorem storeFileToFlash_chunked_witness:
  "storeFileToFlash small_flash (card_with ''abcdefghijk'') ''/roms/a.rom'' 48 =
     (FR_OK,
      [save_and_disable_interrupts, flash_range_erase 32 8,
       flash_range_program 32 ''badcfehg'', restore_interrupts,
       save_and_disable_interrupts, flash_range_erase 40 4,
       flash_range_program 40 [CHR ''j'', CHR ''i'', CHR 0x04, CHR ''k''],
       restore_interrupts]) \<and>
   spec_chunks 8 (payload small_flash ''abcdefghijk'') = [''abcdefgh'', ''ijk''] \<and>
   spec_programmed small_flash 32 [''abcdefgh'', ''ijk''] =
      [save_and_disable_interrupts, flash_range_erase 32 8,
       flash_range_program 32 ''badcfehg'', restore_interrupts,
       save_and_disable_interrupts, flash_range_erase 40 4,
       flash_range_program 40 [CHR ''j'', CHR ''i'', CHR 0x04, CHR ''k''],
       restore_interrupts]"
proof -
  let ?ops = "[save_and_disable_interrupts, flash_range_erase 32 8,
       flash_range_program 32 ''badcfehg'', restore_interrupts,
       save_and_disable_interrupts, flash_range_erase 40 4,
       flash_range_program 40 [CHR ''j'', CHR ''i'', CHR 0x04, CHR ''k''],
       restore_interrupts]"
  have run: "storeFileToFlash small_flash (card_with ''abcdefghijk'') ''/roms/a.rom'' 48 =
     (FR_OK, ?ops)"
    by code_simp
  have chunks: "spec_chunks 8 (payload small_flash ''abcdefghijk'') = [''abcdefgh'', ''ijk'']"
    by code_simp
  have "files (card_with ''abcdefghijk'') ''/roms/a.rom'' = (FR_OK, ''abcdefghijk'', [])"
    by (simp add: card_with_def)
  from storeFileToFlash_chunked [of small_flash "card_with ''abcdefghijk''" "''/roms/a.rom''"
      FR_OK "''abcdefghijk''" "[]" 48 ?ops, OF _ _ _ this] run chunks
  show ?thesis
    by (simp add: small_flash_def)
qed

text \<open>
  Claim C2. On a platform whose erase sector is longer than 4 bytes, for every
  \<open>k \<ge> 1\<close> and every image of \<open>k\<close> sectors: a file made of 4 zero bytes followed
  by the image gives the same result code and the same flash calls, at the same
  offsets, as the file holding the image alone (the header read uses up one transfer
  result of the schedule); and when the 4 leading bytes are not all zero and every
  transfer succeeds (the sector being a multiple of the page), the file pointer is put
  back and all bytes of the file, the 4 leading ones included, are programmed as image.
\<close>

theorem header_skipped_or_rewound:
  assumes "4 < FLASH_SECTOR_SIZE pf" and "1 \<le> k"
    and "length rom_image = k * FLASH_SECTOR_SIZE pf"
  shows "(files fsA nameA = (FR_OK, [CHR 0x00, CHR 0x00, CHR 0x00, CHR 0x00] @ rom_image, errsA) \<and>
          files fsB nameB = (FR_OK, rom_image, errsB) \<and>
          (errsA = FR_OK # errsB \<or> errsA = [] \<and> errsB = []) \<longrightarrow>
            storeFileToFlash pf fsA nameA flashAddress =
            storeFileToFlash pf fsB nameB flashAddress) \<and>
         (files fs file_name = (FR_OK, header @ rom_image, errs) \<and> length header = 4 \<and>
          header \<noteq> [CHR 0x00, CHR 0x00, CHR 0x00, CHR 0x00] \<and>
          set errs \<subseteq> {FR_OK} \<and> 0 < FLASH_PAGE_SIZE pf \<and>
          FLASH_PAGE_SIZE pf dvd FLASH_SECTOR_SIZE pf \<longrightarrow>
            storeFileToFlash pf fs file_name flashAddress =
              (FR_OK, spec_programmed pf (flashAddress - XIP_BASE pf)
                        (spec_chunks (FLASH_SECTOR_SIZE pf) (header @ rom_image))))"
proof -
  let ?n = "FLASH_SECTOR_SIZE pf"
  let ?off = "flashAddress - XIP_BASE pf"
  let ?zero = "[CHR 0x00, CHR 0x00, CHR 0x00, CHR 0x00]"
  note arith = sector_minus_header [OF assms(1,2)]
  have pos: "0 < k" "0 < ?n"
    using assms(1,2) by simp_all
  have same: "storeFileToFlash pf fsA nameA flashAddress =
              storeFileToFlash pf fsB nameB flashAddress"
    if A: "files fsA nameA = (FR_OK, ?zero @ rom_image, errsA)"
      and B: "files fsB nameB = (FR_OK, rom_image, errsB)"
      and E: "errsA = FR_OK # errsB \<or> errsA = [] \<and> errsB = []"
  proof -
    from E have e1: "(case errsA of [] \<Rightarrow> FR_OK | r # rs \<Rightarrow> r) = FR_OK"
      and tl: "tl errsA = errsB"
      by auto
    have "storeFileToFlash pf fsA nameA flashAddress =
          flash_loop pf \<lparr>fdata = ?zero @ rom_image, fptr = 4, ferrs = errsB\<rparr> ?off"
      using storeFileToFlash_opened [OF A, of pf flashAddress] e1 tl assms(3) arith pos
      by (simp add: Let_def)
    moreover have "storeFileToFlash pf fsB nameB flashAddress =
          flash_loop pf \<lparr>fdata = rom_image, fptr = 0, ferrs = errsB\<rparr> ?off"
      using storeFileToFlash_opened [OF B, of pf flashAddress] assms(3) arith pos
      by (simp add: Let_def)
    moreover have "flash_loop pf \<lparr>fdata = ?zero @ rom_image, fptr = 4, ferrs = errsB\<rparr> ?off =
          flash_loop pf \<lparr>fdata = rom_image, fptr = 0, ferrs = errsB\<rparr> ?off"
      by (rule flash_loop_cong) simp_all
    ultimately show ?thesis
      by simp
  qed
  have rewound: "storeFileToFlash pf fs file_name flashAddress =
      (FR_OK, spec_programmed pf ?off (spec_chunks ?n (header @ rom_image)))"
    if F: "files fs file_name = (FR_OK, header @ rom_image, errs)"
      and H: "length header = 4" "header \<noteq> ?zero"
      and E: "set errs \<subseteq> {FR_OK}" and P: "0 < FLASH_PAGE_SIZE pf"
  proof -
    have e1: "(case errs of [] \<Rightarrow> FR_OK | r # rs \<Rightarrow> r) = FR_OK"
      and t1: "set (tl errs) \<subseteq> {FR_OK}"
      using E by (cases errs; auto)+
    have e2: "(case tl errs of [] \<Rightarrow> FR_OK | r # rs \<Rightarrow> r) = FR_OK"
      and t2: "set (tl (tl errs)) \<subseteq> {FR_OK}"
      using t1 by (cases "tl errs"; auto)+
    have "storeFileToFlash pf fs file_name flashAddress =
          flash_loop pf \<lparr>fdata = header @ rom_image, fptr = 0, ferrs = tl (tl errs)\<rparr> ?off"
      using storeFileToFlash_opened [OF F, of pf flashAddress] e1 e2 H assms(3) pos
      by (simp add: Let_def)
    also have "\<dots> = (FR_OK, spec_programmed pf ?off (spec_chunks ?n (header @ rom_image)))"
      using flash_loop_total [of pf "\<lparr>fdata = header @ rom_image, fptr = 0, ferrs = tl (tl errs)\<rparr>" ?off]
        assms(1) P t2 by simp
    finally show ?thesis .
  qed
  from same rewound show ?thesis
    by blast
qed

theorem header_skipped_or_rewound_witness:
  "storeFileToFlash small_flash (card_with ([CHR 0x00, CHR 0x00, CHR 0x00, CHR 0x00] @ ''abcdefgh''))
       ''/roms/steem.stc'' 48 =
   storeFileToFlash small_flash (card_with ''abcdefgh'') ''/roms/plain.rom'' 48 \<and>
   storeFileToFlash small_flash (card_with ''abcdefgh'') ''/roms/plain.rom'' 48 =
     (FR_OK, [save_and_disable_interrupts, flash_range_erase 32 8,
        flash_range_program 32 ''badcfehg'', restore_interrupts]) \<and>
   storeFileToFlash small_flash (card_with (''wxyz'' @ ''abcdefgh'')) ''/roms/plain.rom'' 48 =
     (FR_OK, spec_programmed small_flash 32 (spec_chunks 8 (''wxyz'' @ ''abcdefgh'')))"
proof -
  have geom: "4 < FLASH_SECTOR_SIZE small_flash" "0 < FLASH_PAGE_SIZE small_flash"
    "FLASH_PAGE_SIZE small_flash dvd FLASH_SECTOR_SIZE small_flash"
    "length ''abcdefgh'' = 1 * FLASH_SECTOR_SIZE small_flash"
    "XIP_BASE small_flash = 16" "FLASH_SECTOR_SIZE small_flash = 8"
    by (simp_all add: small_flash_def)
  have run: "storeFileToFlash small_flash (card_with ''abcdefgh'') ''/roms/plain.rom'' 48 =
     (FR_OK, [save_and_disable_interrupts, flash_range_erase 32 8,
        flash_range_program 32 ''badcfehg'', restore_interrupts])"
    by code_simp
  from header_skipped_or_rewound [OF geom(1) order_refl geom(4),
      of "card_with ([CHR 0x00, CHR 0x00, CHR 0x00, CHR 0x00] @ ''abcdefgh'')" "''/roms/steem.stc''"
         "[]" "card_with ''abcdefgh''" "''/roms/plain.rom''" "[]" 48
         "card_with (''wxyz'' @ ''abcdefgh'')" "''/roms/plain.rom''" "''wxyz''" "[]"]
    run geom(2,3,5,6)
  show ?thesis
    by (simp add: card_with_def)
qed

text \<open>The SDK's values meet the conditions of both theorems; there the fill byte, the
  page size 256 converted to a byte, is zero.\<close>

lemma rp2040_geometry:
  "4 < FLASH_SECTOR_SIZE rp2040 \<and> 0 < FLASH_PAGE_SIZE rp2040 \<and>
   FLASH_PAGE_SIZE rp2040 dvd FLASH_SECTOR_SIZE rp2040 \<and>
   char_of (FLASH_PAGE_SIZE rp2040) = CHR 0x00"
  by (simp add: rp2040_def, code_simp)


section \<open>Properties of the menu and of the command handlers\<close>

text \<open>Printing, the main menu and the page view change the terminal, the menu level, the
  network flag and the current page, and nothing else.\<close>

lemma prints_eq: "prints ss st = st\<lparr>term_out := term_out st @ map term_printString ss\<rparr>"
  by (induction ss arbitrary: st) (simp_all add: print_def)

lemma menu_frame:
  "menuLevel (menu currentIp st) = TERM_ROMS_MENU_MAIN"
  "roms (menu currentIp st) = roms st"
  "romsCount (menu currentIp st) = romsCount st"
  "currentRomPage (menu currentIp st) = currentRomPage st"
  "maxRomPages (menu currentIp st) = maxRomPages st"
  "downloadRomSelected (menu currentIp st) = downloadRomSelected st"
  "keepActive (menu currentIp st) = keepActive st"
  "aconfig (menu currentIp st) = aconfig st"
  "aconfig_saved (menu currentIp st) = aconfig_saved st"
  "dl_status (menu currentIp st) = dl_status st"
  "dl_calls (menu currentIp st) = dl_calls st"
  "flash_calls (menu currentIp st) = flash_calls st"
  by (simp_all add: menu_def prints_eq print_def Let_def split: option.splits)

lemma menu_prints: "\<exists>out. term_out (menu currentIp st) = term_out st @ showTitle # out"
  by (simp add: menu_def prints_eq print_def Let_def split: option.splits)

lemma print_rows_eq:
  "print_rows rs idxs st = Inr st' \<Longrightarrow>
   st' = st\<lparr>term_out := term_out st @
            map (\<lambda>i. print_rom_line (i + 1) (name (rs ! nat i))) idxs\<rparr> \<and>
   (\<forall>i \<in> set idxs. 0 \<le> i \<and> i < int (length rs))"
  by (induction rs idxs st rule: print_rows.induct) (auto split: if_splits)

lemma print_rows_ok:
  "\<forall>i \<in> set idxs. 0 \<le> i \<and> i < int (length rs) \<Longrightarrow> \<exists>st'. print_rows rs idxs st = Inr st'"
  by (induction rs idxs st rule: print_rows.induct) auto

lemma print_rows_fault:
  "print_rows rs idxs st = Inl e \<Longrightarrow>
   \<exists>i \<in> set idxs. e = OutOfBounds i \<and> (i < 0 \<or> int (length rs) \<le> i)"
  by (induction rs idxs st rule: print_rows.induct) (auto split: if_splits)

lemma displayRomsPage_eq:
  assumes "displayRomsPage rs count pageSize pageNumber st = Inr st'"
  shows "st' = st\<lparr>term_out := term_out st @
                 print_page_header (pageNumber + 1) (page_start count pageSize pageNumber + 1)
                   (page_end count pageSize pageNumber) count #
                 map (\<lambda>i. print_rom_line (i + 1) (name (rs ! nat i)))
                   (page_indices count pageSize pageNumber),
               currentRomPage := pageNumber\<rparr>"
    and "\<forall>i \<in> set (page_indices count pageSize pageNumber). 0 \<le> i \<and> i < int (length rs)"
  using assms
  by (auto simp: displayRomsPage_def Let_def dest!: print_rows_eq split: sum.splits)

lemma navigatePages_eq:
  assumes "navigatePages pageNumber st = Inr st'"
  shows "st' = st\<lparr>term_out := term_out st', currentRomPage := pageNumber\<rparr>"
    and "\<forall>i \<in> set (page_indices (romsCount st) MAX_ROMS_PER_PAGE pageNumber).
           0 \<le> i \<and> i < int (length (roms st))"
proof -
  from assms obtain st1 where
    st1: "displayRomsPage (roms st) (romsCount st) MAX_ROMS_PER_PAGE pageNumber
            (print [CHR 0x1B, CHR ''E''] st) = Inr st1"
    by (auto simp: navigatePages_def split: sum.splits)
  note eq = displayRomsPage_eq [OF st1]
  from eq(2) show "\<forall>i \<in> set (page_indices (romsCount st) MAX_ROMS_PER_PAGE pageNumber).
           0 \<le> i \<and> i < int (length (roms st))"
    by (simp add: print_def)
  from assms st1 have "\<exists>out. st' = st1\<lparr>term_out := out\<rparr>"
    by (auto simp: navigatePages_def Let_def print_def)
  then obtain out where "st' = st1\<lparr>term_out := out\<rparr>" ..
  with eq(1) show "st' = st\<lparr>term_out := term_out st', currentRomPage := pageNumber\<rparr>"
    by (simp add: print_def)
qed

lemma navigatePages_frame:
  assumes "navigatePages pageNumber st = Inr st'"
  shows "currentRomPage st' = pageNumber"
    and "roms st' = roms st"
    and "romsCount st' = romsCount st"
    and "maxRomPages st' = maxRomPages st"
    and "menuLevel st' = menuLevel st"
    and "downloadRomSelected st' = downloadRomSelected st"
    and "keepActive st' = keepActive st"
    and "aconfig st' = aconfig st"
    and "aconfig_saved st' = aconfig_saved st"
    and "dl_status st' = dl_status st"
    and "dl_calls st' = dl_calls st"
    and "flash_calls st' = flash_calls st"
  by (subst navigatePages_eq(1) [OF assms], simp)+


text \<open>
  Claim C9. In a launch command the provisioning routine is called once (its flash calls
  are appended once). When it returns an error, the settings in memory, the persisted
  settings (the device mode among them) and the keep-running flag are what they were; when
  it returns \<^verbatim>\<open>FR_OK\<close>, the device mode is written (delay or direct), the settings are
  saved and the keep-running flag is cleared. So the mode is written and the exit
  requested only when provisioning succeeds.
\<close>

theorem cmdLaunch_failure_keeps_mode:
  assumes "storeFileToFlash pf fs (take (MAX_PATH_SIZE - 1) (romsFolder st @ ''/'' @ sel))
             (rom_temp_start pf) = (fresult, ops)"
    and "settings_find_entry (aconfig st) ACONFIG_PARAM_ROM_SELECTED = Some sel"
  shows "flash_calls (cmdLaunch pf fs st) = flash_calls st @ ops \<and>
         (fresult \<noteq> FR_OK \<longrightarrow>
            aconfig (cmdLaunch pf fs st) = aconfig st \<and>
            aconfig_saved (cmdLaunch pf fs st) = aconfig_saved st \<and>
            keepActive (cmdLaunch pf fs st) = keepActive st) \<and>
         (fresult = FR_OK \<longrightarrow>
            aconfig (cmdLaunch pf fs st) =
              settings_put_integer (aconfig st) ACONFIG_PARAM_ROM_MODE
                (if delayMode st then ROM_MODE_DELAY else ROM_MODE_DIRECT) \<and>
            aconfig_saved (cmdLaunch pf fs st) = aconfig (cmdLaunch pf fs st) \<and>
            \<not> keepActive (cmdLaunch pf fs st)) \<and>
         (aconfig (cmdLaunch pf fs st) ACONFIG_PARAM_ROM_MODE \<noteq> aconfig st ACONFIG_PARAM_ROM_MODE \<or>
          aconfig_saved (cmdLaunch pf fs st) \<noteq> aconfig_saved st \<or>
          keepActive (cmdLaunch pf fs st) \<noteq> keepActive st \<longrightarrow> fresult = FR_OK)"
  using assms
  by (auto simp: cmdLaunch_def Let_def prints_eq print_def DPRINTF_def settings_save_def
      settings_find_entry_def)

theorem cmdLaunch_failure_keeps_mode_witness:
  "flash_calls (cmdLaunch small_flash no_card
      (init_state\<lparr>aconfig := [ACONFIG_PARAM_ROM_SELECTED \<mapsto> ''a.rom'',
                               ACONFIG_PARAM_ROM_MODE \<mapsto> ''255'']\<rparr>)) = [] \<and>
   aconfig (cmdLaunch small_flash no_card
      (init_state\<lparr>aconfig := [ACONFIG_PARAM_ROM_SELECTED \<mapsto> ''a.rom'',
                               ACONFIG_PARAM_ROM_MODE \<mapsto> ''255'']\<rparr>)) ACONFIG_PARAM_ROM_MODE
     = Some ''255'' \<and>
   keepActive (cmdLaunch small_flash no_card
      (init_state\<lparr>aconfig := [ACONFIG_PARAM_ROM_SELECTED \<mapsto> ''a.rom'',
                               ACONFIG_PARAM_ROM_MODE \<mapsto> ''255'']\<rparr>))"
proof -
  let ?st = "init_state\<lparr>aconfig := [ACONFIG_PARAM_ROM_SELECTED \<mapsto> ''a.rom'',
                               ACONFIG_PARAM_ROM_MODE \<mapsto> ''255'']\<rparr>"
  have sel: "settings_find_entry (aconfig ?st) ACONFIG_PARAM_ROM_SELECTED = Some ''a.rom''"
    by (simp add: settings_find_entry_def)
  have run: "storeFileToFlash small_flash no_card
               (take (MAX_PATH_SIZE - 1) (romsFolder ?st @ ''/'' @ ''a.rom''))
               (rom_temp_start small_flash) = (FR_ERR 4, [])"
    by (simp add: storeFileToFlash_def f_open_def no_card_def)
  from cmdLaunch_failure_keeps_mode [OF run sel]
  show ?thesis
    by (simp add: init_state_def)
qed


section \<open>The selection after a download\<close>

text \<open>\<^verbatim>\<open>romDownloadUpdate\<close> tests \<^verbatim>\<open>downloadRomSelected > 0\<close>: row 0 is treated like the
  unset value \<open>-1\<close>.\<close>

lemma romDownloadUpdate_first_row:
  "downloadRomSelected st = 0 \<Longrightarrow> romDownloadUpdate currentIp st = Inr st"
  by (simp add: romDownloadUpdate_def)

lemma romDownloadUpdate_later_row:
  "0 < downloadRomSelected st \<Longrightarrow> downloadRomSelected st < int (length (roms st)) \<Longrightarrow>
   romDownloadUpdate currentIp st =
     Inr (menu currentIp (settings_save (st\<lparr>aconfig := settings_put_string (aconfig st)
            ACONFIG_PARAM_ROM_SELECTED
            (filename (roms st ! nat (downloadRomSelected st)))\<rparr>)))"
  by (simp add: romDownloadUpdate_def rom_at_def)

text \<open>
  Claim C7 (the code departs from it). The first row of a two-entry remote catalog is
  picked and confirmed, and the main loop sees the download completed: finish and
  confirm are called and the status is Idle, but the selected-ROM setting is still the
  empty string written at confirmation, in memory and persisted; the file name
  \<^verbatim>\<open>a.rom\<close> is not stored. The same steps with the second row store \<^verbatim>\<open>b.rom\<close>.
\<close>

theorem first_row_download_not_selected:
  "\<not> isl (download_row ''1'') \<and>
   dl_calls (app (projr (download_row ''1''))) =
     [download_setFilepath '':///a.rom'', download_start, download_finish, download_confirm] \<and>
   dl_status (app (projr (download_row ''1''))) = DOWNLOAD_STATUS_IDLE \<and>
   aconfig (app (projr (download_row ''1''))) ACONFIG_PARAM_ROM_SELECTED = Some [] \<and>
   aconfig_saved (app (projr (download_row ''1''))) ACONFIG_PARAM_ROM_SELECTED = Some [] \<and>
   aconfig (app (projr (download_row ''2''))) ACONFIG_PARAM_ROM_SELECTED = Some ''b.rom''"
  by code_simp
text \<open>
  Claim C8 as stated fails. After row 2 has been picked, the download confirmed and
  completed, the index is still 1, not the unset value \<open>-1\<close> it had before. After row 2
  has been picked and the detail view left with another key, the index is still 1, and a
  download that completes later stores the file name of row 2 as the selected ROM.
\<close>

theorem selected_index_not_consumed:
  "downloadRomSelected browsing_two = - 1 \<and>
   \<not> isl (download_row ''2'') \<and>
   dl_status (app (projr (download_row ''2''))) = DOWNLOAD_STATUS_IDLE \<and>
   downloadRomSelected (app (projr (download_row ''2''))) = 1 \<and>
   \<not> isl (cmdUnknown idle_engine 0 ''x'' (projr (cmdUnknown idle_engine 0 ''2'' browsing_two))) \<and>
   menuLevel (projr (cmdUnknown idle_engine 0 ''x''
       (projr (cmdUnknown idle_engine 0 ''2'' browsing_two)))) = TERM_ROMS_MENU_BROWSE_NETWORK \<and>
   downloadRomSelected (projr (cmdUnknown idle_engine 0 ''x''
       (projr (cmdUnknown idle_engine 0 ''2'' browsing_two)))) = 1 \<and>
   \<not> isl (abandon_row ''2'') \<and>
   dl_status (app (projr (abandon_row ''2''))) = DOWNLOAD_STATUS_IDLE \<and>
   downloadRomSelected (app (projr (abandon_row ''2''))) = 1 \<and>
   aconfig (app (projr (abandon_row ''2''))) ACONFIG_PARAM_ROM_SELECTED = Some ''b.rom''"
  by code_simp


lemma rom_at_ok:
  "0 \<le> i \<Longrightarrow> i < int (length (roms st)) \<Longrightarrow> rom_at st i = Inr (roms st ! nat i)"
  by (simp add: rom_at_def)

lemma cmdUnknown_selected:
  assumes "cmdUnknown engine currentIp arg st = Inr st'"
  shows "downloadRomSelected st' =
           (if menuLevel st = TERM_ROMS_MENU_BROWSE_NETWORK \<and> 0 < atoi arg \<and>
               atoi arg \<le> romsCount st
            then atoi arg - 1 else downloadRomSelected st)"
proof -
  consider (main) "menuLevel st = TERM_ROMS_MENU_MAIN"
    | (sd) "menuLevel st = TERM_ROMS_MENU_BROWSE_SD"
    | (net) "menuLevel st = TERM_ROMS_MENU_BROWSE_NETWORK"
    | (detail) "menuLevel st = TERM_ROMS_MENU_BROWSE_NETWORK + TERM_ROMS_MENU_SUBMENU"
    | (other) "menuLevel st \<noteq> TERM_ROMS_MENU_MAIN" "menuLevel st \<noteq> TERM_ROMS_MENU_BROWSE_SD"
        "menuLevel st \<noteq> TERM_ROMS_MENU_BROWSE_NETWORK"
        "menuLevel st \<noteq> TERM_ROMS_MENU_BROWSE_NETWORK + TERM_ROMS_MENU_SUBMENU"
    by blast
  then show ?thesis
  proof cases
    case main
    with assms show ?thesis
      by (auto simp: cmdUnknown_def menu_frame TERM_ROMS_MENU_MAIN_def
          TERM_ROMS_MENU_BROWSE_NETWORK_def)
  next
    case sd
    with assms show ?thesis
      by (auto simp: cmdUnknown_def menu_frame Let_def prints_eq print_def settings_save_def
          TERM_ROMS_MENU_MAIN_def TERM_ROMS_MENU_BROWSE_SD_def TERM_ROMS_MENU_BROWSE_NETWORK_def
          split: sum.splits if_splits)
  next
    case net
    with assms show ?thesis
      by (auto simp: cmdUnknown_def Let_def prints_eq print_def
          TERM_ROMS_MENU_MAIN_def TERM_ROMS_MENU_BROWSE_SD_def TERM_ROMS_MENU_BROWSE_NETWORK_def
          split: sum.splits if_splits)
  next
    case detail
    show ?thesis
    proof (cases "arg = [] \<or> hd arg = CHR 0x0A")
      case True
      with assms detail show ?thesis
        by (auto simp: cmdUnknown_def menu_frame Let_def settings_save_def engine_call_def
            TERM_ROMS_MENU_MAIN_def TERM_ROMS_MENU_BROWSE_SD_def TERM_ROMS_MENU_BROWSE_NETWORK_def
            TERM_ROMS_MENU_SUBMENU_def split: sum.splits)
    next
      case False
      with assms detail
      have "navigatePages (currentRomPage st)
              (st\<lparr>menuLevel := TERM_ROMS_MENU_BROWSE_NETWORK\<rparr>) = Inr st'"
        by (auto simp: cmdUnknown_def TERM_ROMS_MENU_MAIN_def TERM_ROMS_MENU_BROWSE_SD_def
            TERM_ROMS_MENU_BROWSE_NETWORK_def TERM_ROMS_MENU_SUBMENU_def)
      from navigatePages_frame(6) [OF this] detail show ?thesis
        by (simp add: TERM_ROMS_MENU_BROWSE_NETWORK_def TERM_ROMS_MENU_SUBMENU_def)
    qed
  next
    case other
    with assms show ?thesis
      by (auto simp: cmdUnknown_def print_def split: if_splits)
  qed
qed

lemma romDownloadUpdate_selected:
  "romDownloadUpdate currentIp st = Inr st' \<Longrightarrow> downloadRomSelected st' = downloadRomSelected st"
  by (auto simp: romDownloadUpdate_def menu_frame settings_save_def split: if_splits sum.splits)

lemma download_step_selected:
  "download_step engine currentIp now ls = Inr ls' \<Longrightarrow>
   downloadRomSelected (app ls') = downloadRomSelected (app ls)"
  by (cases "dl_status (app ls)")
     (auto simp: download_step_def download_setStatus_def engine_call_def
       dest!: romDownloadUpdate_selected split: if_splits sum.splits)

lemma cmdUnknown_pick_returns:
  assumes "menuLevel st = TERM_ROMS_MENU_BROWSE_NETWORK" "0 < atoi arg" "atoi arg \<le> romsCount st"
    "romsCount st \<le> int (length (roms st))"
  shows "\<exists>st'. cmdUnknown engine currentIp arg st = Inr st'"
  using assms
  by (simp add: cmdUnknown_def Let_def rom_at_def TERM_ROMS_MENU_MAIN_def
      TERM_ROMS_MENU_BROWSE_SD_def TERM_ROMS_MENU_BROWSE_NETWORK_def)

lemma scan_entries_selected:
  "scan_entries folder entries st = Inr st' \<Longrightarrow> downloadRomSelected st' = downloadRomSelected st"
proof (induction folder entries st rule: scan_entries.induct)
  case (1 folder st)
  then show ?case by simp
next
  case (2 folder res fno rest st)
  then show ?case
    by (auto simp: DPRINTF_def split: if_splits sum.splits)
qed

lemma readRomsSdcard_selected:
  "readRomsSdcard fs folder st = Inr st' \<Longrightarrow> downloadRomSelected st' = downloadRomSelected st"
  by (auto simp: readRomsSdcard_def sort_and_paginate_def DPRINTF_def Let_def
      dest!: scan_entries_selected split: if_splits sum.splits prod.splits)

lemma store_csv_entry_selected:
  "store_csv_entry flds st = Inr st' \<Longrightarrow> downloadRomSelected st' = downloadRomSelected st"
  by (auto simp: store_csv_entry_def Let_def split: prod.splits option.splits sum.splits)

lemma csv_loop_selected:
  "csv_loop pf fp st = Inr st' \<Longrightarrow> downloadRomSelected st' = downloadRomSelected st"
proof (induction pf fp st rule: csv_loop.induct)
  case (1 pf fp st)
  obtain r fp' where g: "f_gets (FLASH_PAGE_SIZE pf * 2) fp = (r, fp')"
    by (cases "f_gets (FLASH_PAGE_SIZE pf * 2) fp") auto
  show ?case
  proof (cases r)
    case None
    with g "1.prems" show ?thesis
      by (simp add: csv_loop.simps [of pf fp st])
  next
    case (Some text_line)
    note unfold = csv_loop.simps [of pf fp st]
    show ?thesis
    proof (cases "cstr text_line = [] \<or> hd (cstr text_line) = CHR 0x0A")
      case True
      with g Some "1.prems" unfold have "csv_loop pf fp' st = Inr st'"
        by (simp add: Let_def)
      with "1.IH"(1) [OF g [symmetric] _ _ True] Some show ?thesis
        by simp
    next
      case False
      show ?thesis
      proof (cases "extract_fields (cstr text_line)")
        case None
        with g Some False "1.prems" unfold
        have "csv_loop pf fp' (DPRINTF ''expected quote'' st) = Inr st'"
          by (simp add: Let_def)
        with "1.IH"(2) [OF g [symmetric] _ _ False None] Some show ?thesis
          by (simp add: DPRINTF_def)
      next
        case flds: (Some flds)
        show ?thesis
        proof (cases "romsCount st < MAX_ROMS")
          case full: False
          with g Some False flds "1.prems" unfold show ?thesis
            by (auto simp: Let_def DPRINTF_def)
        next
          case True
          with g Some False flds "1.prems" unfold obtain st1 where
            st1: "store_csv_entry flds st = Inr st1" "csv_loop pf fp' st1 = Inr st'"
            by (auto simp: Let_def split: sum.splits)
          from "1.IH"(3) [OF g [symmetric] _ _ False flds True st1(1) st1(2)] Some
            store_csv_entry_selected [OF st1(1)]
          show ?thesis
            by simp
        qed
      qed
    qed
  qed
qed

lemma readRomsCsv_selected:
  "readRomsCsv pf fs csvFilepath st = Inr st' \<Longrightarrow> downloadRomSelected st' = downloadRomSelected st"
  by (auto simp: readRomsCsv_def sort_and_paginate_def DPRINTF_def Let_def
      dest!: csv_loop_selected split: if_splits sum.splits prod.splits option.splits)


lemma cmdNext_selected:
  "cmdNext st = Inr st' \<Longrightarrow> downloadRomSelected st' = downloadRomSelected st"
  by (auto simp: cmdNext_def Let_def dest!: navigatePages_frame(6) split: if_splits)

lemma cmdPrev_selected:
  "cmdPrev st = Inr st' \<Longrightarrow> downloadRomSelected st' = downloadRomSelected st"
  by (auto simp: cmdPrev_def Let_def dest!: navigatePages_frame(6) split: if_splits)

lemma cmdCard_selected:
  "cmdCard fs st = Inr st' \<Longrightarrow> downloadRomSelected st' = downloadRomSelected st"
  by (auto simp: cmdCard_def Let_def prints_eq
      dest!: navigatePages_frame(6) readRomsSdcard_selected split: if_splits sum.splits)

lemma cmdNetwork_selected:
  "cmdNetwork pf fs st = Inr st' \<Longrightarrow> downloadRomSelected st' = downloadRomSelected st"
  by (auto simp: cmdNetwork_def
      dest!: navigatePages_frame(6) readRomsCsv_selected split: sum.splits)

lemma cmdLaunch_selected:
  "downloadRomSelected (cmdLaunch pf fs st) = downloadRomSelected st"
  by (simp add: cmdLaunch_def Let_def prints_eq print_def DPRINTF_def settings_save_def
      split: option.splits prod.splits)

lemma handlers_selected:
  "downloadRomSelected (cmdMenu currentIp st) = downloadRomSelected st"
  "downloadRomSelected (cmdHelp st) = downloadRomSelected st"
  "downloadRomSelected (cmdClear st) = downloadRomSelected st"
  "downloadRomSelected (cmdExit st) = downloadRomSelected st"
  "downloadRomSelected (cmdBooster st) = downloadRomSelected st"
  "downloadRomSelected (cmdDelay currentIp st) = downloadRomSelected st"
  "downloadRomSelected (term_cmd out ctx saved st) = downloadRomSelected st"
  "downloadRomSelected (preinit st) = downloadRomSelected st"
  "downloadRomSelected (failure message st) = downloadRomSelected st"
  "downloadRomSelected (init folder currentIp st) = downloadRomSelected st"
  by (simp_all add: cmdMenu_def cmdHelp_def cmdClear_def cmdExit_def cmdBooster_def
      cmdDelay_def term_cmd_def preinit_def failure_def init_def menu_frame prints_eq
      print_def Let_def split: option.splits)

lemma dispatch_selected:
  assumes "dispatch pf fs engine currentIp c st = Inr st'"
  shows "downloadRomSelected st' =
           (case c of
              CmdUnknown arg \<Rightarrow>
                if menuLevel st = TERM_ROMS_MENU_BROWSE_NETWORK \<and> 0 < atoi arg \<and>
                   atoi arg \<le> romsCount st
                then atoi arg - 1 else downloadRomSelected st
            | _ \<Rightarrow> downloadRomSelected st)"
  using assms
  by (cases c)
     (auto simp: dispatch_def handlers_selected cmdLaunch_selected
       dest: cmdNext_selected cmdPrev_selected cmdCard_selected cmdNetwork_selected
         cmdUnknown_selected)

lemma dispatch_selected_weak:
  "dispatch pf fs engine currentIp c st = Inr st' \<Longrightarrow>
   downloadRomSelected st' = downloadRomSelected st \<or> 0 \<le> downloadRomSelected st'"
  by (drule dispatch_selected) (auto split: command.splits if_splits)

lemma term_loop_selected:
  "term_loop pf fs engine currentIp cs st = Inr st' \<Longrightarrow>
   downloadRomSelected st' = downloadRomSelected st \<or> 0 \<le> downloadRomSelected st'"
proof (induction cs arbitrary: st)
  case Nil
  then show ?case by simp
next
  case (Cons c cs)
  then obtain st1 where s: "dispatch pf fs engine currentIp c st = Inr st1"
    "term_loop pf fs engine currentIp cs st1 = Inr st'"
    by (auto split: sum.splits)
  from dispatch_selected_weak [OF s(1)] Cons.IH [OF s(2)] show ?case
    by auto
qed

lemma loop_body_selected:
  assumes "loop_body pf it ls = Inr ls'"
  shows "downloadRomSelected (app ls') = downloadRomSelected (app ls) \<or>
         0 \<le> downloadRomSelected (app ls')"
proof -
  from assms obtain a where a:
    "term_loop pf (it_card it) (it_engine it) (it_ip it) (it_typed it) (app ls) = Inr a"
    "download_step (it_engine it) (it_ip it) (it_clock it) (ls\<lparr>app := a\<rparr>) = Inr ls'"
    by (auto simp: loop_body_def split: sum.splits)
  from term_loop_selected [OF a(1)] download_step_selected [OF a(2)] show ?thesis
    by auto
qed

lemma main_loop_selected:
  "main_loop pf its ls = Inr ls' \<Longrightarrow>
   downloadRomSelected (app ls') = downloadRomSelected (app ls) \<or>
   0 \<le> downloadRomSelected (app ls')"
proof (induction its arbitrary: ls)
  case Nil
  then show ?case by simp
next
  case (Cons it its)
  show ?case
  proof (cases "keepActive (app ls)")
    case False
    with Cons.prems show ?thesis by simp
  next
    case True
    with Cons.prems obtain ls1 where s: "loop_body pf it ls = Inr ls1"
      "main_loop pf its ls1 = Inr ls'"
      by (auto split: sum.splits)
    from loop_body_selected [OF s(1)] Cons.IH [OF s(2)] show ?thesis
      by auto
  qed
qed


lemma dispatch_pick_returns:
  assumes "menuLevel st = TERM_ROMS_MENU_BROWSE_NETWORK" "0 < atoi arg" "atoi arg \<le> romsCount st"
    "romsCount st \<le> int (length (roms st))"
  shows "\<exists>st'. dispatch pf fs engine currentIp (CmdUnknown arg) st = Inr st' \<and>
           downloadRomSelected st' = atoi arg - 1"
proof -
  from cmdUnknown_pick_returns [OF assms] obtain st' where
    r: "cmdUnknown engine currentIp arg st = Inr st'"
    by blast
  from cmdUnknown_selected [OF r] assms r show ?thesis
    by (simp add: dispatch_def)
qed

lemma main_loop_stays_set:
  "0 \<le> downloadRomSelected (app ls) \<Longrightarrow> main_loop pf its ls = Inr ls' \<Longrightarrow>
   0 \<le> downloadRomSelected (app ls')"
  using main_loop_selected [of pf its ls ls'] by auto

lemma session_index:
  "selected (main_loop rp2040 (take 1 session) boot) = Some 1"
  "selected (main_loop rp2040 (take 2 session) boot) = Some 1"
  "selected (main_loop rp2040 (take 3 session) boot) = Some 2"
  "selected (main_loop rp2040 session boot) = Some 2"
  "selected (main_loop rp2040 (drop 1 session)
     (projr (main_loop rp2040 (take 1 session) boot))) = Some 2"
  by code_simp+

lemma selected_Some:
  "selected r = Some v \<Longrightarrow> r = Inr (projr r) \<and> downloadRomSelected (app (projr r)) = v"
  by (cases r) (auto simp: selected_def)

text \<open>
  Claim C8, amended. Of all the handlers of the command table, a settings command of
  the terminal included, only the default handler changes the selected-remote-entry
  index, and only when it receives a valid row number while the remote catalog is
  browsed: the index then becomes the row number minus one, and the handler does
  return. Every other command leaves the index as it is: the confirmation of the
  download and the return to the list from the detail view, the two browse commands,
  the page commands, the menu, the launch. So do \<^verbatim>\<open>romDownloadUpdate\<close>, the download
  switch of the main loop, \<^verbatim>\<open>cmdClear\<close>, \<^verbatim>\<open>preinit\<close>, \<^verbatim>\<open>failure\<close> and \<^verbatim>\<open>init\<close>.
  Over any number of iterations of the main loop the index is therefore what it was or
  a row index, and once it is a row index it is never again the unset value \<open>-1\<close>:
  nothing consumes it.
\<close>

theorem selected_index_set_only_by_row_pick:
  "(dispatch pf fs engine currentIp c st = Inr st' \<longrightarrow>
      downloadRomSelected st' =
        (case c of
           CmdUnknown arg \<Rightarrow>
             if menuLevel st = TERM_ROMS_MENU_BROWSE_NETWORK \<and> 0 < atoi arg \<and>
                atoi arg \<le> romsCount st
             then atoi arg - 1 else downloadRomSelected st
         | _ \<Rightarrow> downloadRomSelected st)) \<and>
   (menuLevel st = TERM_ROMS_MENU_BROWSE_NETWORK \<and> 0 < atoi row \<and> atoi row \<le> romsCount st \<and>
    romsCount st \<le> int (length (roms st)) \<longrightarrow>
      (\<exists>st1. dispatch pf fs engine currentIp (CmdUnknown row) st = Inr st1 \<and>
             downloadRomSelected st1 = atoi row - 1)) \<and>
   (romDownloadUpdate currentIp st = Inr st2 \<longrightarrow>
      downloadRomSelected st2 = downloadRomSelected st) \<and>
   (download_step engine currentIp now ls = Inr ls1 \<longrightarrow>
      downloadRomSelected (app ls1) = downloadRomSelected (app ls)) \<and>
   downloadRomSelected (cmdClear st) = downloadRomSelected st \<and>
   downloadRomSelected (preinit st) = downloadRomSelected st \<and>
   downloadRomSelected (failure message st) = downloadRomSelected st \<and>
   downloadRomSelected (init folder currentIp st) = downloadRomSelected st \<and>
   (main_loop pf its ls = Inr ls2 \<longrightarrow>
      (downloadRomSelected (app ls2) = downloadRomSelected (app ls) \<or>
       0 \<le> downloadRomSelected (app ls2)) \<and>
      (0 \<le> downloadRomSelected (app ls) \<longrightarrow> 0 \<le> downloadRomSelected (app ls2)))"
  using dispatch_selected [of pf fs engine currentIp c st st']
    dispatch_pick_returns [of st row pf fs engine currentIp]
    romDownloadUpdate_selected [of currentIp st st2]
    download_step_selected [of engine currentIp now ls ls1]
    main_loop_selected [of pf its ls ls2]
    main_loop_stays_set [of ls pf its ls2]
  by (intro conjI impI) (simp_all add: handlers_selected)

theorem selected_index_set_only_by_row_pick_witness:
  "downloadRomSelected (app boot) = - 1 \<and>
   selected (main_loop rp2040 (take 1 session) boot) = Some 1 \<and>
   selected (main_loop rp2040 (take 2 session) boot) = Some 1 \<and>
   selected (main_loop rp2040 (take 3 session) boot) = Some 2 \<and>
   selected (main_loop rp2040 session boot) = Some 2 \<and>
   0 \<le> downloadRomSelected (app (projr (main_loop rp2040 (drop 1 session)
          (projr (main_loop rp2040 (take 1 session) boot))))) \<and>
   downloadRomSelected
     (projr (dispatch rp2040 no_card idle_engine 0 (CmdUnknown ''2'') browsing_two)) = 1 \<and>
   downloadRomSelected
     (projr (dispatch rp2040 no_card idle_engine 0 (CmdUnknown ''x'')
        (projr (dispatch rp2040 no_card idle_engine 0 (CmdUnknown ''2'') browsing_two)))) = 1 \<and>
   downloadRomSelected
     (projr (dispatch rp2040 no_card idle_engine 0 (CmdUnknown [])
        (projr (dispatch rp2040 no_card idle_engine 0 (CmdUnknown ''2'') browsing_two)))) = 1 \<and>
   downloadRomSelected
     (projr (dispatch rp2040 no_card idle_engine 0 CmdCard
        (projr (dispatch rp2040 no_card idle_engine 0 (CmdUnknown ''2'') browsing_two)))) = 1 \<and>
   downloadRomSelected
     (projr (dispatch rp2040 no_card idle_engine 0 (CmdUnknown ''7'') browsing_two)) = - 1"
proof -
  let ?d = "dispatch rp2040 no_card idle_engine 0"
  let ?s1 = "projr (?d (CmdUnknown ''2'') browsing_two)"
  let ?l1 = "projr (main_loop rp2040 (take 1 session) boot)"
  let ?l2 = "projr (main_loop rp2040 (drop 1 session) ?l1)"
  have "\<not> isl (?d (CmdUnknown ''2'') browsing_two)" "\<not> isl (?d (CmdUnknown ''x'') ?s1)"
    "\<not> isl (?d (CmdUnknown []) ?s1)" "\<not> isl (?d CmdCard ?s1)"
    "\<not> isl (?d (CmdUnknown ''7'') browsing_two)"
    by code_simp+
  then have r: "?d (CmdUnknown ''2'') browsing_two = Inr ?s1"
    "?d (CmdUnknown ''x'') ?s1 = Inr (projr (?d (CmdUnknown ''x'') ?s1))"
    "?d (CmdUnknown []) ?s1 = Inr (projr (?d (CmdUnknown []) ?s1))"
    "?d CmdCard ?s1 = Inr (projr (?d CmdCard ?s1))"
    "?d (CmdUnknown ''7'') browsing_two = Inr (projr (?d (CmdUnknown ''7'') browsing_two))"
    by simp_all
  have v: "menuLevel browsing_two = TERM_ROMS_MENU_BROWSE_NETWORK" "atoi ''2'' = 2"
    "atoi ''7'' = 7" "romsCount browsing_two = 2" "downloadRomSelected browsing_two = - 1"
    "menuLevel ?s1 \<noteq> TERM_ROMS_MENU_BROWSE_NETWORK" "downloadRomSelected (app boot) = - 1"
    by code_simp+
  note step = selected_index_set_only_by_row_pick [where pf = rp2040 and fs = no_card
      and engine = idle_engine and currentIp = 0]
  from step [where c = "CmdUnknown ''2''" and st = browsing_two and st' = ?s1] r(1) v
  have s1: "downloadRomSelected ?s1 = 1"
    by simp
  from step [where c = "CmdUnknown ''x''" and st = ?s1
      and st' = "projr (?d (CmdUnknown ''x'') ?s1)"] r(2) v s1
  have s2: "downloadRomSelected (projr (?d (CmdUnknown ''x'') ?s1)) = 1"
    by simp
  from step [where c = "CmdUnknown []" and st = ?s1
      and st' = "projr (?d (CmdUnknown []) ?s1)"] r(3) v s1
  have s3: "downloadRomSelected (projr (?d (CmdUnknown []) ?s1)) = 1"
    by simp
  from step [where c = CmdCard and st = ?s1 and st' = "projr (?d CmdCard ?s1)"] r(4) v s1
  have s4: "downloadRomSelected (projr (?d CmdCard ?s1)) = 1"
    by simp
  from step [where c = "CmdUnknown ''7''" and st = browsing_two
      and st' = "projr (?d (CmdUnknown ''7'') browsing_two)"] r(5) v
  have s5: "downloadRomSelected (projr (?d (CmdUnknown ''7'') browsing_two)) = - 1"
    by simp
  note l1 = selected_Some [OF session_index(1)]
  note l2 = selected_Some [OF session_index(5)]
  from selected_index_set_only_by_row_pick [where pf = rp2040 and its = "drop 1 session"
      and ls = ?l1 and ?ls2.0 = ?l2] l1 l2
  have "0 \<le> downloadRomSelected (app ?l2)"
    by simp
  with session_index(1-4) v(7) s1 s2 s3 s4 s5 show ?thesis
    by simp
qed



section \<open>The page view\<close>

text \<open>
  Claim C10 (the code departs from it). With an empty catalog the start index is clamped
  to \<^verbatim>\<open>romsCount - 1\<close>, that is \<open>-1\<close>, and the loop reads \<^verbatim>\<open>roms[-1]\<close>: the
  remote-browse command on a card without catalog file ends in that read.
\<close>

theorem empty_catalog_page_reads_before_array:
  "page_indices 0 MAX_ROMS_PER_PAGE 0 = [- 1] \<and>
   isl (displayRomsPage (roms init_state) 0 MAX_ROMS_PER_PAGE 0 init_state) \<and>
   projl (displayRomsPage (roms init_state) 0 MAX_ROMS_PER_PAGE 0 init_state) = OutOfBounds (- 1) \<and>
   isl (cmdNetwork rp2040 no_card init_state) \<and>
   projl (cmdNetwork rp2040 no_card init_state) = OutOfBounds (- 1)"
  by code_simp


section \<open>Population of the catalog\<close>

text \<open>
  Claim C4 (the code departs from it). \<^verbatim>\<open>readRomsSdcard\<close> returns when the directory
  cannot be opened, before the entry count is reset: a catalog of two entries still has
  two entries after the failed scan, and the failure is logged. \<^verbatim>\<open>readRomsCsv\<close> resets
  the count before it opens the file and leaves zero entries.
\<close>

theorem failed_scan_keeps_catalog:
  "\<not> isl (readRomsSdcard no_card ''/roms'' browsing_two) \<and>
   romsCount (projr (readRomsSdcard no_card ''/roms'' browsing_two)) = 2 \<and>
   debug_out (projr (readRomsSdcard no_card ''/roms'' browsing_two)) = [''Error opening directory''] \<and>
   romsCount (projr (readRomsCsv rp2040 no_card ''/roms/roms.csv'' browsing_two)) = 0"
  by code_simp

text \<open>
  Claim C5 (the code departs from it). For the data line
  \<^verbatim>\<open>"%41%42.rom","%41%42","d%20e","%74","12"\<close> the stored name, description, tags and
  path are percent-decoded, but the stored file name is the field as it stands in the
  document, \<^verbatim>\<open>%41%42.rom\<close>, although \<^verbatim>\<open>urlDecode\<close> maps it to \<^verbatim>\<open>AB.rom\<close>.
\<close>

theorem filename_not_decoded:
  "\<not> isl (readRomsCsv rp2040 (card_with encoded_catalog) ''/roms/roms.csv'' configured) \<and>
   romsCount (projr (readRomsCsv rp2040 (card_with encoded_catalog) ''/roms/roms.csv'' configured)) = 1 \<and>
   filename (roms (projr (readRomsCsv rp2040 (card_with encoded_catalog) ''/roms/roms.csv'' configured)) ! 0)
     = ''%41%42.rom'' \<and>
   urlDecode ''%41%42.rom'' (MAX_PATH_SIZE * 2) = ''AB.rom'' \<and>
   path (roms (projr (readRomsCsv rp2040 (card_with encoded_catalog) ''/roms/roms.csv'' configured)) ! 0)
     = ''/roms/AB.rom'' \<and>
   name (roms (projr (readRomsCsv rp2040 (card_with encoded_catalog) ''/roms/roms.csv'' configured)) ! 0)
     = ''AB'' \<and>
   description (roms (projr (readRomsCsv rp2040 (card_with encoded_catalog) ''/roms/roms.csv'' configured)) ! 0)
     = ''d e'' \<and>
   tags (roms (projr (readRomsCsv rp2040 (card_with encoded_catalog) ''/roms/roms.csv'' configured)) ! 0)
     = ''t''"
  by code_simp


section \<open>The download state machine\<close>

lemma download_step_idle:
  "dl_status (app ls) = DOWNLOAD_STATUS_IDLE \<Longrightarrow> download_step engine currentIp now ls = Inr ls"
  by (simp add: download_step_def)

lemma download_steps_idle:
  "dl_status (app ls) = DOWNLOAD_STATUS_IDLE \<Longrightarrow> download_steps engine currentIp clock ls = Inr ls"
  by (induction clock) (simp_all add: download_step_idle)

lemma download_step_waits:
  "dl_status (app ls) = DOWNLOAD_STATUS_NOT_STARTED \<Longrightarrow> now \<le> startDownloadTime ls \<Longrightarrow>
   download_step engine currentIp now ls = Inr ls"
  by (simp add: download_step_def absolute_time_diff_us_def)

lemma download_steps_wait:
  "dl_status (app ls) = DOWNLOAD_STATUS_NOT_STARTED \<Longrightarrow>
   \<forall>now \<in> set clock. now \<le> startDownloadTime ls \<Longrightarrow>
   download_steps engine currentIp clock ls = Inr ls"
  by (induction clock) (simp_all add: download_step_waits)

lemma romDownloadUpdate_returns:
  assumes "downloadRomSelected st < int (length (roms st))"
  shows "\<exists>st'. romDownloadUpdate currentIp st = Inr st' \<and> dl_status st' = dl_status st \<and>
           dl_calls st' = dl_calls st"
  using assms
  by (auto simp: romDownloadUpdate_def rom_at_def menu_frame settings_save_def)

text \<open>
  Claim C6. In the switch of the main loop: (1) a Requested status becomes NotStarted in
  the same iteration, with the resume time set 3 seconds (3000000 microseconds) after the
  present and no call to the engine; any number of further iterations not later than
  the resume time make no call either. (2) In the NotStarted state an iteration whose
  clock is not past the resume time changes nothing; one whose clock is past it calls
  start, once. (3) A Completed status leads, when the stashed index lies in the array, to
  exactly the calls finish and confirm and to the status Idle; in the iterations that
  follow nothing happens, so finish and confirm are called once per completed download.
\<close>

theorem download_state_machine:
  "(dl_status (app ls) = DOWNLOAD_STATUS_REQUESTED \<longrightarrow>
      (\<exists>ls1. download_step engine currentIp now ls = Inr ls1 \<and>
         dl_status (app ls1) = DOWNLOAD_STATUS_NOT_STARTED \<and>
         startDownloadTime ls1 = now + 3000000 \<and>
         dl_calls (app ls1) = dl_calls (app ls) \<and>
         ((\<forall>t \<in> set clock. t \<le> now + 3000000) \<longrightarrow>
            download_steps engine currentIp clock ls1 = Inr ls1))) \<and>
   (dl_status (app ls) = DOWNLOAD_STATUS_NOT_STARTED \<and> now \<le> startDownloadTime ls \<longrightarrow>
      download_step engine currentIp now ls = Inr ls) \<and>
   (dl_status (app ls) = DOWNLOAD_STATUS_NOT_STARTED \<and> startDownloadTime ls < now \<longrightarrow>
      (\<exists>ls1. download_step engine currentIp now ls = Inr ls1 \<and>
         dl_calls (app ls1) = dl_calls (app ls) @ [download_start])) \<and>
   (dl_status (app ls) = DOWNLOAD_STATUS_COMPLETED \<and>
    downloadRomSelected (app ls) < int (length (roms (app ls))) \<longrightarrow>
      (\<exists>ls1. download_step engine currentIp now ls = Inr ls1 \<and>
         dl_calls (app ls1) = dl_calls (app ls) @ [download_finish, download_confirm] \<and>
         dl_status (app ls1) = DOWNLOAD_STATUS_IDLE \<and>
         download_steps engine currentIp clock ls1 = Inr ls1))"
proof -
  have requested: "\<exists>ls1. download_step engine currentIp now ls = Inr ls1 \<and>
         dl_status (app ls1) = DOWNLOAD_STATUS_NOT_STARTED \<and>
         startDownloadTime ls1 = now + 3000000 \<and>
         dl_calls (app ls1) = dl_calls (app ls) \<and>
         ((\<forall>t \<in> set clock. t \<le> now + 3000000) \<longrightarrow>
            download_steps engine currentIp clock ls1 = Inr ls1)"
    if "dl_status (app ls) = DOWNLOAD_STATUS_REQUESTED"
  proof -
    let ?ls1 = "ls\<lparr>startDownloadTime := make_timeout_time_ms now DOWNLOAD_START_MS,
                  app := download_setStatus DOWNLOAD_STATUS_NOT_STARTED (app ls)\<rparr>"
    have step: "download_step engine currentIp now ls = Inr ?ls1"
      using that by (simp add: download_step_def)
    have facts: "dl_status (app ?ls1) = DOWNLOAD_STATUS_NOT_STARTED"
      "startDownloadTime ?ls1 = now + 3000000" "dl_calls (app ?ls1) = dl_calls (app ls)"
      by (simp_all add: download_setStatus_def make_timeout_time_ms_def DOWNLOAD_START_MS_def)
    have "download_steps engine currentIp clock ?ls1 = Inr ?ls1"
      if "\<forall>t \<in> set clock. t \<le> now + 3000000"
      using download_steps_wait [of ?ls1 clock engine currentIp] facts(1,2) that by simp
    with step facts show ?thesis
      by blast
  qed
  have started: "\<exists>ls1. download_step engine currentIp now ls = Inr ls1 \<and>
         dl_calls (app ls1) = dl_calls (app ls) @ [download_start]"
    if "dl_status (app ls) = DOWNLOAD_STATUS_NOT_STARTED" "startDownloadTime ls < now"
    using that by (simp add: download_step_def absolute_time_diff_us_def engine_call_def)
  have completed: "\<exists>ls1. download_step engine currentIp now ls = Inr ls1 \<and>
         dl_calls (app ls1) = dl_calls (app ls) @ [download_finish, download_confirm] \<and>
         dl_status (app ls1) = DOWNLOAD_STATUS_IDLE \<and>
         download_steps engine currentIp clock ls1 = Inr ls1"
    if c: "dl_status (app ls) = DOWNLOAD_STATUS_COMPLETED"
      and i: "downloadRomSelected (app ls) < int (length (roms (app ls)))"
  proof -
    let ?a = "download_setStatus DOWNLOAD_STATUS_IDLE
                (engine_call engine download_confirm
                   (engine_call engine download_finish (app ls)))"
    have a: "downloadRomSelected ?a < int (length (roms ?a))"
      "dl_status ?a = DOWNLOAD_STATUS_IDLE"
      "dl_calls ?a = dl_calls (app ls) @ [download_finish, download_confirm]"
      using i by (simp_all add: download_setStatus_def engine_call_def)
    from romDownloadUpdate_returns [OF a(1), of currentIp] obtain a' where
      a': "romDownloadUpdate currentIp ?a = Inr a'" "dl_status a' = dl_status ?a"
        "dl_calls a' = dl_calls ?a"
      by blast
    let ?ls1 = "ls\<lparr>app := a'\<rparr>"
    have "download_step engine currentIp now ls = Inr ?ls1"
      using c a'(1) by (simp add: download_step_def)
    moreover have "dl_status (app ?ls1) = DOWNLOAD_STATUS_IDLE"
      "dl_calls (app ?ls1) = dl_calls (app ls) @ [download_finish, download_confirm]"
      using a' a(2,3) by simp_all
    moreover from this(1) have "download_steps engine currentIp clock ?ls1 = Inr ?ls1"
      by (rule download_steps_idle)
    ultimately show ?thesis
      by blast
  qed
  from requested started completed
    download_step_waits [of ls now engine currentIp]
  show ?thesis
    by blast
qed


theorem download_state_machine_witness:
  "dl_status (app (projr (download_step idle_engine 0 1000000
      \<lparr>app = browsing_two\<lparr>dl_status := DOWNLOAD_STATUS_REQUESTED\<rparr>,
       startDownloadTime = 0\<rparr>))) = DOWNLOAD_STATUS_NOT_STARTED \<and>
   startDownloadTime (projr (download_step idle_engine 0 1000000
      \<lparr>app = browsing_two\<lparr>dl_status := DOWNLOAD_STATUS_REQUESTED\<rparr>,
       startDownloadTime = 0\<rparr>)) = 4000000 \<and>
   dl_calls (app (projr (download_steps idle_engine 0 [2000000, 4000000]
      (projr (download_step idle_engine 0 1000000
         \<lparr>app = browsing_two\<lparr>dl_status := DOWNLOAD_STATUS_REQUESTED\<rparr>,
          startDownloadTime = 0\<rparr>))))) = [] \<and>
   dl_calls (app (projr (download_step idle_engine 0 4000001
      \<lparr>app = browsing_two\<lparr>dl_status := DOWNLOAD_STATUS_NOT_STARTED\<rparr>,
       startDownloadTime = 4000000\<rparr>))) = [download_start] \<and>
   dl_calls (app (projr (download_step idle_engine 0 4000000
      \<lparr>app = browsing_two\<lparr>dl_status := DOWNLOAD_STATUS_NOT_STARTED\<rparr>,
       startDownloadTime = 4000000\<rparr>))) = [] \<and>
   dl_calls (app (projr (download_step idle_engine 0 5000000
      \<lparr>app = browsing_two\<lparr>dl_status := DOWNLOAD_STATUS_COMPLETED, downloadRomSelected := 1\<rparr>,
       startDownloadTime = 4000000\<rparr>))) = [download_finish, download_confirm]"
proof -
  let ?req = "\<lparr>app = browsing_two\<lparr>dl_status := DOWNLOAD_STATUS_REQUESTED\<rparr>,
                startDownloadTime = 0\<rparr>"
  let ?wait = "\<lparr>app = browsing_two\<lparr>dl_status := DOWNLOAD_STATUS_NOT_STARTED\<rparr>,
                 startDownloadTime = 4000000\<rparr>"
  let ?done = "\<lparr>app = browsing_two\<lparr>dl_status := DOWNLOAD_STATUS_COMPLETED,
                                      downloadRomSelected := 1\<rparr>,
                 startDownloadTime = 4000000\<rparr>"
  have calls: "dl_calls browsing_two = []" and len: "length (roms browsing_two) = 100"
    by (simp_all add: browsing_two_def init_state_def MAX_ROMS_def)
  from download_state_machine [of ?req idle_engine 0 1000000 "[2000000, 4000000]"]
  obtain ls1 where ls1: "download_step idle_engine 0 1000000 ?req = Inr ls1"
      "dl_status (app ls1) = DOWNLOAD_STATUS_NOT_STARTED" "startDownloadTime ls1 = 4000000"
      "dl_calls (app ls1) = []" "download_steps idle_engine 0 [2000000, 4000000] ls1 = Inr ls1"
    using calls by auto
  from download_state_machine [of ?wait idle_engine 0 4000001 "[]"]
  obtain ls2 where ls2: "download_step idle_engine 0 4000001 ?wait = Inr ls2"
      "dl_calls (app ls2) = [download_start]"
    using calls by auto
  from download_state_machine [of ?wait idle_engine 0 4000000 "[]"]
  have ls3: "download_step idle_engine 0 4000000 ?wait = Inr ?wait"
    by simp
  from download_state_machine [of ?done idle_engine 0 5000000 "[]"]
  obtain ls4 where ls4: "download_step idle_engine 0 5000000 ?done = Inr ls4"
      "dl_calls (app ls4) = [download_finish, download_confirm]"
    using calls len by auto
  from ls1 ls2 ls3 ls4 calls show ?thesis
    by simp
qed


section \<open>The catalog invariant\<close>

lemma NUL_iff: "c = CHR 0x00 \<longleftrightarrow> of_char c = (0::nat)"
proof -
  have "c = CHR 0x00 \<longleftrightarrow> (of_char c :: nat) = of_char (CHR 0x00)"
    by (simp only: of_char_eq_iff)
  then show ?thesis
    by simp
qed

lemma tolower_NUL [simp]: "tolower c = CHR 0x00 \<longleftrightarrow> c = CHR 0x00"
  by (simp add: NUL_iff tolower_def Let_def)

lemma tolower_zero [simp]: "tolower (CHR 0x00) = CHR 0x00"
  by (simp add: tolower_def)

lemma casefold_simps:
  "casefold [] = []"
  "casefold (CHR 0x00 # s) = []"
  "c \<noteq> CHR 0x00 \<Longrightarrow> casefold (c # s) = of_char (tolower c) # casefold s"
  by (simp_all add: casefold_def cstr_def)

lemma key_pos: "c \<noteq> CHR 0x00 \<Longrightarrow> 0 < (of_char (tolower c) :: nat)"
  using tolower_NUL [of c] by (simp add: NUL_iff del: tolower_NUL)

text \<open>\<^verbatim>\<open>strcasecmp\<close> orders strings as the specification's case-insensitive order does.\<close>

lemma strcasecmp_le: "strcasecmp a b \<le> 0 \<longleftrightarrow> casefold a \<le> casefold b"
proof (induction a b rule: strcasecmp.induct)
  case 1
  show ?case by (simp add: casefold_simps)
next
  case (2 b bs)
  show ?case by (simp add: casefold_simps)
next
  case (3 a as)
  show ?case
  proof (cases "a = CHR 0x00")
    case True
    then show ?thesis by (simp add: casefold_simps)
  next
    case False
    with key_pos [OF False] show ?thesis by (simp add: casefold_simps)
  qed
next
  case (4 a as b bs)
  show ?case
  proof (cases "a = CHR 0x00")
    case True
    then show ?thesis by (simp add: casefold_simps)
  next
    case a: False
    show ?thesis
    proof (cases "b = CHR 0x00")
      case True
      with a key_pos [OF a] show ?thesis by (simp add: casefold_simps)
    next
      case b: False
      show ?thesis
      proof (cases "tolower a = tolower b")
        case True
        with a b "4.IH" show ?thesis by (simp add: casefold_simps)
      next
        case False
        then have "(of_char (tolower a) :: nat) \<noteq> of_char (tolower b)"
          by simp
        with a b False show ?thesis
          by (auto simp: casefold_simps simp del: of_char_eq_iff)
      qed
    qed
  qed
qed

lemma set_qsort_insert: "set (qsort_insert cmp x xs) = insert x (set xs)"
  by (induction xs) auto

lemma length_qsort_insert: "length (qsort_insert cmp x xs) = Suc (length xs)"
  by (induction xs) auto

lemma length_qsort [simp]: "length (qsort cmp xs) = length xs"
  by (induction xs) (simp_all add: length_qsort_insert)

lemma set_qsort [simp]: "set (qsort cmp xs) = set xs"
  by (induction xs) (simp_all add: set_qsort_insert)

lemma sorted_qsort_insert:
  fixes f :: "'a \<Rightarrow> 'b::linorder"
  assumes "\<And>x y. cmp x y \<le> 0 \<longleftrightarrow> f x \<le> f y" and "sorted (map f xs)"
  shows "sorted (map f (qsort_insert cmp x xs))"
  using assms(2)
proof (induction xs)
  case Nil
  show ?case by simp
next
  case (Cons y ys)
  show ?case
  proof (cases "cmp x y \<le> 0")
    case True
    with Cons.prems assms(1) [of x y] show ?thesis
      by (auto intro: order_trans)
  next
    case False
    with assms(1) [of x y] have "f y \<le> f x"
      by simp
    with False Cons show ?thesis
      by (auto simp: set_qsort_insert)
  qed
qed

lemma sorted_qsort:
  fixes f :: "'a \<Rightarrow> 'b::linorder"
  assumes "\<And>x y. cmp x y \<le> 0 \<longleftrightarrow> f x \<le> f y"
  shows "sorted (map f (qsort cmp xs))"
  by (induction xs) (simp_all add: sorted_qsort_insert [OF assms])

lemma qsort_compareRoms: "sorted_by_filename (qsort compareRoms rs)"
  unfolding sorted_by_filename_def
  by (rule sorted_qsort) (simp add: compareRoms_def strcasecmp_le)

lemma scan_entries_count:
  "scan_entries folder entries st = Inr st' \<Longrightarrow> 0 \<le> romsCount st \<Longrightarrow> romsCount st \<le> MAX_ROMS \<Longrightarrow>
   0 \<le> romsCount st' \<and> romsCount st' \<le> MAX_ROMS \<and> length (roms st') = length (roms st)"
proof (induction folder entries st rule: scan_entries.induct)
  case (1 folder st)
  then show ?case by simp
next
  case (2 folder res fno rest st)
  then show ?case
    by (auto simp: DPRINTF_def split: if_splits sum.splits)
qed

lemma store_csv_entry_count:
  "store_csv_entry flds st = Inr st' \<Longrightarrow>
   romsCount st' = romsCount st + 1 \<and> length (roms st') = length (roms st)"
  by (auto simp: store_csv_entry_def Let_def split: prod.splits option.splits sum.splits)

lemma csv_loop_count:
  "csv_loop pf fp st = Inr st' \<Longrightarrow> 0 \<le> romsCount st \<Longrightarrow> romsCount st \<le> MAX_ROMS \<Longrightarrow>
   0 \<le> romsCount st' \<and> romsCount st' \<le> MAX_ROMS \<and> length (roms st') = length (roms st)"
proof (induction pf fp st rule: csv_loop.induct)
  case (1 pf fp st)
  obtain r fp' where g: "f_gets (FLASH_PAGE_SIZE pf * 2) fp = (r, fp')"
    by (cases "f_gets (FLASH_PAGE_SIZE pf * 2) fp") auto
  show ?case
  proof (cases r)
    case None
    with g "1.prems" show ?thesis
      by (simp add: csv_loop.simps [of pf fp st])
  next
    case (Some text_line)
    note unfold = csv_loop.simps [of pf fp st]
    show ?thesis
    proof (cases "cstr text_line = [] \<or> hd (cstr text_line) = CHR 0x0A")
      case True
      with g Some "1.prems" unfold have "csv_loop pf fp' st = Inr st'"
        by (simp add: Let_def)
      with "1.IH"(1) [OF g [symmetric] _ _ True] Some "1.prems" show ?thesis
        by simp
    next
      case False
      show ?thesis
      proof (cases "extract_fields (cstr text_line)")
        case None
        with g Some False "1.prems" unfold
        have "csv_loop pf fp' (DPRINTF ''expected quote'' st) = Inr st'"
          by (simp add: Let_def)
        with "1.IH"(2) [OF g [symmetric] _ _ False None] Some "1.prems" show ?thesis
          by (simp add: DPRINTF_def)
      next
        case flds: (Some flds)
        show ?thesis
        proof (cases "romsCount st < MAX_ROMS")
          case full: False
          with g Some False flds "1.prems" unfold show ?thesis
            by (auto simp: Let_def DPRINTF_def)
        next
          case True
          with g Some False flds "1.prems" unfold obtain st1 where
            st1: "store_csv_entry flds st = Inr st1" "csv_loop pf fp' st1 = Inr st'"
            by (auto simp: Let_def split: sum.splits)
          from store_csv_entry_count [OF st1(1)] True "1.prems"
          have c: "0 \<le> romsCount st1" "romsCount st1 \<le> MAX_ROMS"
            "length (roms st1) = length (roms st)"
            by simp_all
          from "1.IH"(3) [OF g [symmetric] _ _ False flds True st1(1) st1(2) c(1,2)] Some c(3)
          show ?thesis
            by simp
        qed
      qed
    qed
  qed
qed

lemma page_count_ceiling:
  "0 \<le> n \<Longrightarrow> (n + MAX_ROMS_PER_PAGE - 1) div MAX_ROMS_PER_PAGE = \<lceil>real_of_int n / 20\<rceil>"
proof -
  have "\<lceil>real_of_int n / real_of_int 20\<rceil> = - (- n div 20)"
    by (rule ceiling_divide_eq_div)
  then show ?thesis
    by (simp add: MAX_ROMS_PER_PAGE_def)
qed

lemma sort_and_paginate_ok:
  assumes "0 \<le> romsCount st" "romsCount st \<le> MAX_ROMS" "length (roms st) = 100"
  shows "catalog_ok (sort_and_paginate st)"
proof -
  let ?n = "nat (romsCount st)"
  have n: "?n \<le> length (roms st)"
    using assms by (simp add: MAX_ROMS_def)
  then have t: "take ?n (qsort compareRoms (take ?n (roms st)) @ drop ?n (roms st)) =
             qsort compareRoms (take ?n (roms st))"
    by simp
  have "catalog (sort_and_paginate st) =
          take ?n (qsort compareRoms (take ?n (roms st)) @ drop ?n (roms st))"
    by (simp add: catalog_def sort_and_paginate_def)
  with t have "catalog (sort_and_paginate st) = qsort compareRoms (take ?n (roms st))"
    by (simp only:)
  then have "sorted_by_filename (catalog (sort_and_paginate st))"
    by (simp only: qsort_compareRoms)
  moreover have "length (roms (sort_and_paginate st)) = 100"
    using n assms(3) by (simp add: sort_and_paginate_def)
  moreover have "maxRomPages (sort_and_paginate st) = \<lceil>real_of_int (romsCount st) / 20\<rceil>"
    using page_count_ceiling [OF assms(1)] by (simp add: sort_and_paginate_def)
  ultimately show ?thesis
    using assms(1,2) by (simp add: catalog_ok_def sort_and_paginate_def MAX_ROMS_def)
qed

lemma catalog_ok_DPRINTF [simp]: "catalog_ok (DPRINTF s st) = catalog_ok st"
  by (simp add: catalog_ok_def catalog_def DPRINTF_def)

lemma catalog_ok_empty:
  "length (roms st) = 100 \<Longrightarrow> catalog_ok (st\<lparr>romsCount := 0\<rparr>) \<longleftrightarrow> maxRomPages st = 0"
  by (simp add: catalog_ok_def catalog_def sorted_by_filename_def)

lemma readRomsCsv_ok:
  assumes "length (roms st) = 100" "readRomsCsv pf fs csvFilepath st = Inr st'"
    "fst (files fs csvFilepath) = FR_OK"
    "fst (f_gets (FLASH_PAGE_SIZE pf * 2) (snd (f_open fs csvFilepath))) \<noteq> None"
  shows "catalog_ok st'"
proof -
  obtain res csvFile where o: "f_open fs csvFilepath = (res, csvFile)"
    by (cases "f_open fs csvFilepath") auto
  with assms(3) have res: "res = FR_OK"
    by (auto simp: f_open_def split: prod.splits)
  obtain h csvFile1 where g: "f_gets (FLASH_PAGE_SIZE pf * 2) csvFile = (h, csvFile1)"
    by (cases "f_gets (FLASH_PAGE_SIZE pf * 2) csvFile") auto
  with assms(4) o obtain header where h: "h = Some header"
    by auto
  from assms(2) o res g h obtain st1 where
    st1: "csv_loop pf csvFile1 (st\<lparr>romsCount := 0\<rparr>) = Inr st1"
      "st' = DPRINTF ''Found ROMs in CSV file'' (sort_and_paginate st1)"
    by (auto simp: readRomsCsv_def Let_def split: sum.splits)
  from csv_loop_count [OF st1(1)] assms(1)
  have "0 \<le> romsCount st1" "romsCount st1 \<le> MAX_ROMS" "length (roms st1) = 100"
    by (simp_all add: MAX_ROMS_def)
  from sort_and_paginate_ok [OF this] st1(2) show ?thesis
    by simp
qed

lemma readRomsSdcard_ok:
  assumes "length (roms st) = 100" "readRomsSdcard fs folder st = Inr st'"
    "fst (dirs fs folder) = FR_OK"
  shows "catalog_ok st'"
proof -
  obtain res entries where d: "dirs fs folder = (res, entries)"
    by (cases "dirs fs folder") auto
  with assms(3) have res: "res = FR_OK"
    by simp
  from assms(2) d res obtain st1 where
    st1: "scan_entries folder entries (st\<lparr>romsCount := 0\<rparr>) = Inr st1"
      "st' = DPRINTF ''Found ROMs on the SD card'' (sort_and_paginate st1)"
    by (auto simp: readRomsSdcard_def split: sum.splits)
  from scan_entries_count [OF st1(1)] assms(1)
  have "0 \<le> romsCount st1" "romsCount st1 \<le> MAX_ROMS" "length (roms st1) = 100"
    by (simp_all add: MAX_ROMS_def)
  from sort_and_paginate_ok [OF this] st1(2) show ?thesis
    by simp
qed


lemma page_indices_in_range:
  assumes "0 < count" "0 \<le> pageNumber"
  shows "\<forall>i \<in> set (page_indices count MAX_ROMS_PER_PAGE pageNumber). 0 \<le> i \<and> i < count"
proof -
  have "0 \<le> page_start count MAX_ROMS_PER_PAGE pageNumber"
    using assms by (simp add: page_start_def MAX_ROMS_PER_PAGE_def Let_def)
  moreover have "page_end count MAX_ROMS_PER_PAGE pageNumber \<le> count"
    by (simp add: page_end_def Let_def)
  ultimately show ?thesis
    by (auto simp: page_indices_def)
qed

lemma navigatePages_ok:
  assumes "catalog_ok st" "0 < romsCount st" "0 \<le> pageNumber"
  shows "\<exists>st'. navigatePages pageNumber st = Inr st'"
proof -
  let ?st = "print [CHR 0x1B, CHR ''E''] st"
  let ?st1 = "?st\<lparr>term_out := term_out ?st @
     [print_page_header (pageNumber + 1)
        (page_start (romsCount st) MAX_ROMS_PER_PAGE pageNumber + 1)
        (page_end (romsCount st) MAX_ROMS_PER_PAGE pageNumber) (romsCount st)]\<rparr>"
  from assms(1) have "romsCount st \<le> int (length (roms st))"
    by (simp add: catalog_ok_def)
  with page_indices_in_range [OF assms(2,3)]
  have "\<forall>i \<in> set (page_indices (romsCount st) MAX_ROMS_PER_PAGE pageNumber).
          0 \<le> i \<and> i < int (length (roms st))"
    by auto
  from print_rows_ok [OF this, of ?st1] obtain st2 where
    "print_rows (roms st) (page_indices (romsCount st) MAX_ROMS_PER_PAGE pageNumber) ?st1 = Inr st2"
    by blast
  then show ?thesis
    by (simp add: navigatePages_def displayRomsPage_def Let_def print_def)
qed

lemma catalog_ok_navigated:
  assumes "navigatePages pageNumber st = Inr st'"
  shows "catalog_ok st' = catalog_ok st" and "romsCount st' = romsCount st"
    and "maxRomPages st' = maxRomPages st" and "currentRomPage st' = pageNumber"
  using navigatePages_frame [OF assms]
  by (simp_all add: catalog_ok_def catalog_def)

lemma catalog_ok_page [simp]: "catalog_ok (st\<lparr>currentRomPage := p\<rparr>) = catalog_ok st"
  by (simp add: catalog_ok_def catalog_def)

lemma cmdNext_ok:
  assumes "catalog_ok st" "0 < romsCount st" "page_in_range st"
  shows "\<exists>st'. cmdNext st = Inr st' \<and> catalog_ok st' \<and> 0 < romsCount st' \<and> page_in_range st' \<and>
           currentRomPage st' = min (currentRomPage st + 1) (maxRomPages st - 1)"
proof -
  let ?st1 = "if currentRomPage st < maxRomPages st - 1
              then st\<lparr>currentRomPage := currentRomPage st + 1\<rparr> else st"
  have st1: "catalog_ok ?st1" "0 < romsCount ?st1" "0 \<le> currentRomPage ?st1"
    "currentRomPage ?st1 < maxRomPages st" "maxRomPages ?st1 = maxRomPages st"
    "currentRomPage ?st1 = min (currentRomPage st + 1) (maxRomPages st - 1)"
    using assms by (auto simp: page_in_range_def)
  from navigatePages_ok [OF st1(1,2,3)] obtain st' where
    n: "navigatePages (currentRomPage ?st1) ?st1 = Inr st'"
    by blast
  from catalog_ok_navigated [OF n] st1 have "catalog_ok st'" "0 < romsCount st'"
    "page_in_range st'" "currentRomPage st' = min (currentRomPage st + 1) (maxRomPages st - 1)"
    by (simp_all add: page_in_range_def)
  with n show ?thesis
    by (simp add: cmdNext_def Let_def)
qed

lemma cmdPrev_ok:
  assumes "catalog_ok st" "0 < romsCount st" "page_in_range st"
  shows "\<exists>st'. cmdPrev st = Inr st' \<and> catalog_ok st' \<and> 0 < romsCount st' \<and> page_in_range st' \<and>
           currentRomPage st' = max (currentRomPage st - 1) 0"
proof -
  let ?st1 = "st\<lparr>currentRomPage := currentRomPage st - 1\<rparr>"
  let ?st2 = "if currentRomPage ?st1 < 0 then ?st1\<lparr>currentRomPage := 0\<rparr> else ?st1"
  have st2: "catalog_ok ?st2" "0 < romsCount ?st2" "0 \<le> currentRomPage ?st2"
    "currentRomPage ?st2 < maxRomPages st" "maxRomPages ?st2 = maxRomPages st"
    "currentRomPage ?st2 = max (currentRomPage st - 1) 0"
    using assms by (auto simp: page_in_range_def)
  from navigatePages_ok [OF st2(1,2,3)] obtain st' where
    n: "navigatePages (currentRomPage ?st2) ?st2 = Inr st'"
    by blast
  from catalog_ok_navigated [OF n] st2 have "catalog_ok st'" "0 < romsCount st'"
    "page_in_range st'" "currentRomPage st' = max (currentRomPage st - 1) 0"
    by (simp_all add: page_in_range_def)
  with n show ?thesis
    by (simp add: cmdPrev_def Let_def)
qed

lemma navigate_ok:
  "catalog_ok st \<Longrightarrow> 0 < romsCount st \<Longrightarrow> page_in_range st \<Longrightarrow>
   \<exists>st'. navigate cmds st = Inr st' \<and> catalog_ok st' \<and> romsCount st' = romsCount st \<and>
         page_in_range st'"
proof (induction cmds arbitrary: st)
  case Nil
  then show ?case by simp
next
  case (Cons c cmds)
  show ?case
  proof (cases c)
    case Next
    from cmdNext_ok [OF Cons.prems] obtain st1 where
      st1: "cmdNext st = Inr st1" "catalog_ok st1" "0 < romsCount st1" "page_in_range st1"
      by blast
    from st1(1) have "romsCount st1 = romsCount st"
      by (auto simp: cmdNext_def Let_def dest: navigatePages_frame(3) split: if_splits)
    with Cons.IH [OF st1(2,3,4)] st1(1) Next show ?thesis
      by auto
  next
    case Prev
    from cmdPrev_ok [OF Cons.prems] obtain st1 where
      st1: "cmdPrev st = Inr st1" "catalog_ok st1" "0 < romsCount st1" "page_in_range st1"
      by blast
    from st1(1) have "romsCount st1 = romsCount st"
      by (auto simp: cmdPrev_def Let_def dest: navigatePages_frame(3) split: if_splits)
    with Cons.IH [OF st1(2,3,4)] st1(1) Prev show ?thesis
      by auto
  qed
qed

lemma catalog_ok_pages: "catalog_ok st \<Longrightarrow> 0 < romsCount st \<Longrightarrow> 0 < maxRomPages st"
  by (simp add: catalog_ok_def)

lemma catalog_ok_menuLevel [simp]: "catalog_ok (st\<lparr>menuLevel := m\<rparr>) = catalog_ok st"
  by (simp add: catalog_ok_def catalog_def)

lemma cmdNetwork_ok:
  assumes "length (roms st) = 100" "csv_readable pf fs ''/roms/roms.csv''"
    "cmdNetwork pf fs st = Inr st'"
  shows "catalog_ok st'" and "0 < romsCount st' \<longrightarrow> page_in_range st'"
proof -
  from assms(3) obtain st1 where
    st1: "readRomsCsv pf fs ''/roms/roms.csv'' st = Inr st1"
      "navigatePages 0 (st1\<lparr>menuLevel := TERM_ROMS_MENU_BROWSE_NETWORK, currentRomPage := 0\<rparr>)
         = Inr st'"
    by (auto simp: cmdNetwork_def split: sum.splits)
  from readRomsCsv_ok [OF assms(1) st1(1)] assms(2) have "catalog_ok st1"
    by (simp add: csv_readable_def)
  with catalog_ok_navigated [OF st1(2)] show ok: "catalog_ok st'"
    by simp
  from catalog_ok_navigated [OF st1(2)] catalog_ok_pages [OF ok]
  show "0 < romsCount st' \<longrightarrow> page_in_range st'"
    by (simp add: page_in_range_def)
qed

lemma cmdCard_ok:
  assumes "length (roms st) = 100" "fst (dirs fs (romsFolder st)) = FR_OK"
    "cmdCard fs st = Inr st'"
  shows "catalog_ok st'" and "0 < romsCount st' \<longrightarrow> page_in_range st'"
proof -
  from assms(3) obtain st1 where
    st1: "readRomsSdcard fs (romsFolder st) st = Inr st1"
    by (auto simp: cmdCard_def split: sum.splits)
  from readRomsSdcard_ok [OF assms(1) st1 assms(2)] have ok1: "catalog_ok st1" .
  show ok: "catalog_ok st'"
  proof (cases "romsCount st1 = 0")
    case True
    with assms(3) st1 ok1 show ?thesis
      by (auto simp: cmdCard_def Let_def prints_eq catalog_ok_def catalog_def)
  next
    case False
    with assms(3) st1 have
      "navigatePages 0 (st1\<lparr>menuLevel := TERM_ROMS_MENU_BROWSE_SD, currentRomPage := 0\<rparr>)
         = Inr st'"
      by (simp add: cmdCard_def Let_def)
    from catalog_ok_navigated(1) [OF this] ok1 show ?thesis
      by simp
  qed
  show "0 < romsCount st' \<longrightarrow> page_in_range st'"
  proof
    assume pos: "0 < romsCount st'"
    have "romsCount st1 \<noteq> 0"
    proof
      assume "romsCount st1 = 0"
      with assms(3) st1 have "romsCount st' = 0"
        by (auto simp: cmdCard_def Let_def prints_eq)
      with pos show False by simp
    qed
    with assms(3) st1 have
      "navigatePages 0 (st1\<lparr>menuLevel := TERM_ROMS_MENU_BROWSE_SD, currentRomPage := 0\<rparr>)
         = Inr st'"
      by (simp add: cmdCard_def Let_def)
    from catalog_ok_navigated [OF this] catalog_ok_pages [OF ok pos]
    show "page_in_range st'"
      by (simp add: page_in_range_def)
  qed
qed

lemma browsing_two_ok: "catalog_ok browsing_two"
proof -
  have m: "map filename (catalog browsing_two) = [''a.rom'', ''b.rom'']"
    by code_simp
  have cf: "casefold ''a.rom'' \<le> casefold ''b.rom''"
    by (simp add: casefold_def cstr_def tolower_def)
  have "sorted_by_filename (catalog browsing_two) =
          sorted (map casefold (map filename (catalog browsing_two)))"
    by (simp add: sorted_by_filename_def comp_def)
  with m cf have s: "sorted_by_filename (catalog browsing_two)"
    by simp
  have v: "romsCount browsing_two = 2" "maxRomPages browsing_two = 1"
    "length (roms browsing_two) = 100"
    by code_simp+
  have c: "\<lceil>real_of_int 2 / 20\<rceil> = (1 :: int)"
    by (simp add: ceiling_eq_iff)
  show ?thesis
    unfolding catalog_ok_def v using s c by simp
qed

lemma readRomsCsv_sorted:
  assumes "length (roms st) = 100" "readRomsCsv pf fs csvFilepath st = Inr st'"
  shows "sorted_by_filename (catalog st') \<and> 0 \<le> romsCount st' \<and> romsCount st' \<le> 100"
proof (cases "csv_readable pf fs csvFilepath")
  case True
  with readRomsCsv_ok [OF assms] show ?thesis
    by (simp add: csv_readable_def catalog_ok_def)
next
  case False
  obtain res csvFile where o: "f_open fs csvFilepath = (res, csvFile)"
    by (cases "f_open fs csvFilepath") auto
  have r: "res = fst (files fs csvFilepath)"
    using o by (auto simp: f_open_def split: prod.splits)
  from False o r assms(2) have "romsCount st' = 0"
    by (auto simp: readRomsCsv_def csv_readable_def Let_def DPRINTF_def
        split: if_splits prod.splits option.splits)
  then show ?thesis
    by (simp add: catalog_def sorted_by_filename_def)
qed

lemma scanned_pages:
  "(case cmdCard full_card init_state of
      Inl e \<Rightarrow> []
    | Inr s \<Rightarrow> map (\<lambda>cmds. listing (navigate cmds s))
                 [[], [Next], [Next, Next], [Next, Prev], [Next, Next, Prev, Prev]]) =
   map (\<lambda>p. Some (22, 2, p, rom_names_sorted)) [0, 1, 1, 0, 0]"
  by code_simp

lemma scanned:
  "listing (readRomsSdcard full_card ''/roms'' init_state) = Some (22, 2, 0, rom_names_sorted)"
  by code_simp

lemma parsed:
  "listing (readRomsCsv rp2040 full_card ''/roms/roms.csv'' configured) =
     Some (3, 1, 0, [''A.rom'', ''b.rom'', ''c.rom''])"
  by code_simp

lemma browsed:
  "listing (cmdNetwork rp2040 full_card configured) =
     Some (3, 1, 0, [''A.rom'', ''b.rom'', ''c.rom''])"
  by code_simp

lemma listing_Some:
  "listing r = Some v \<Longrightarrow> r = Inr (projr r) \<and>
     romsCount (projr r) = fst v \<and> maxRomPages (projr r) = fst (snd v) \<and>
     currentRomPage (projr r) = fst (snd (snd v)) \<and>
     map filename (catalog (projr r)) = snd (snd (snd v))"
  by (cases r) (auto simp: listing_def)

text \<open>
  Claim C3 as stated fails, in two ways. A remote catalog document with a header line and
  no data line is parsed without error into zero entries and zero pages, so that no
  current page lies in \<open>[0, page count)\<close>, and neither navigation command returns a
  state. And a producer that cannot open its source does not compute the page count: from
  a sorted catalog of two entries and one page, a remote parse whose document does not
  open leaves zero entries and one page, which is not the ceiling of 0 / 20, and a local
  scan whose directory does not open then leaves the count and the page count as they
  are.
\<close>

theorem empty_catalog_and_failed_open_break_invariant:
  "\<not> isl (readRomsCsv rp2040 (card_with header_only_catalog) ''/roms/roms.csv'' configured) \<and>
   romsCount (projr (readRomsCsv rp2040 (card_with header_only_catalog) ''/roms/roms.csv'' configured)) = 0 \<and>
   maxRomPages (projr (readRomsCsv rp2040 (card_with header_only_catalog) ''/roms/roms.csv'' configured)) = 0 \<and>
   currentRomPage (projr (readRomsCsv rp2040 (card_with header_only_catalog) ''/roms/roms.csv'' configured)) = 0 \<and>
   \<not> page_in_range (projr (readRomsCsv rp2040 (card_with header_only_catalog) ''/roms/roms.csv'' configured)) \<and>
   isl (cmdNext (projr (readRomsCsv rp2040 (card_with header_only_catalog) ''/roms/roms.csv'' configured))) \<and>
   isl (cmdPrev (projr (readRomsCsv rp2040 (card_with header_only_catalog) ''/roms/roms.csv'' configured))) \<and>
   catalog_ok browsing_two \<and>
   \<not> isl (readRomsCsv rp2040 no_card ''/roms/roms.csv'' browsing_two) \<and>
   romsCount (projr (readRomsCsv rp2040 no_card ''/roms/roms.csv'' browsing_two)) = 0 \<and>
   maxRomPages (projr (readRomsCsv rp2040 no_card ''/roms/roms.csv'' browsing_two)) = 1 \<and>
   \<not> catalog_ok (projr (readRomsCsv rp2040 no_card ''/roms/roms.csv'' browsing_two)) \<and>
   \<not> isl (readRomsSdcard no_card ''/roms''
           (projr (readRomsCsv rp2040 no_card ''/roms/roms.csv'' browsing_two))) \<and>
   romsCount (projr (readRomsSdcard no_card ''/roms''
           (projr (readRomsCsv rp2040 no_card ''/roms/roms.csv'' browsing_two)))) = 0 \<and>
   maxRomPages (projr (readRomsSdcard no_card ''/roms''
           (projr (readRomsCsv rp2040 no_card ''/roms/roms.csv'' browsing_two)))) = 1 \<and>
   \<not> catalog_ok (projr (readRomsSdcard no_card ''/roms''
           (projr (readRomsCsv rp2040 no_card ''/roms/roms.csv'' browsing_two))))"
proof -
  let ?h = "projr (readRomsCsv rp2040 (card_with header_only_catalog) ''/roms/roms.csv'' configured)"
  let ?f = "projr (readRomsCsv rp2040 no_card ''/roms/roms.csv'' browsing_two)"
  let ?g = "projr (readRomsSdcard no_card ''/roms'' ?f)"
  have empty:
    "\<not> isl (readRomsCsv rp2040 (card_with header_only_catalog) ''/roms/roms.csv'' configured)"
    "romsCount ?h = 0" "maxRomPages ?h = 0" "currentRomPage ?h = 0" "\<not> page_in_range ?h"
    "isl (cmdNext ?h)" "isl (cmdPrev ?h)"
    by code_simp+
  have failed: "\<not> isl (readRomsCsv rp2040 no_card ''/roms/roms.csv'' browsing_two)"
    "romsCount ?f = 0" "maxRomPages ?f = 1"
    "\<not> isl (readRomsSdcard no_card ''/roms'' ?f)" "romsCount ?g = 0" "maxRomPages ?g = 1"
    by code_simp+
  from failed have "\<not> catalog_ok ?f" "\<not> catalog_ok ?g"
    by (simp_all add: catalog_ok_def)
  with empty failed browsing_two_ok show ?thesis
    by simp
qed

text \<open>
  Claim C3, amended. Let the array have its 100 slots. After every remote parse the
  catalog is sorted case-insensitively by file name and holds at most 100 entries, and
  after one whose document opens and has a header line the page count is the ceiling of
  the count divided by 20. After a local scan whose directory opens the catalog is
  sorted, holds at most 100 entries, and the page count is that ceiling. The browse
  commands leave the catalog so and, when it is not empty, the current page (0) within
  \<open>[0, page count)\<close>. From every state with a non-empty catalog and the current page in
  range, the next command moves to the following page unless the page is the last, the
  previous command to the preceding page unless the page is the first, and every
  sequence of next and previous commands runs to the end and keeps the catalog, the
  count and the current page within \<open>[0, page count)\<close>.
\<close>

theorem catalog_sorted_paged_and_navigable:
  assumes "length (roms st) = 100"
  shows "(readRomsCsv pf fs csvFilepath st = Inr s1 \<longrightarrow>
            sorted_by_filename (catalog s1) \<and> 0 \<le> romsCount s1 \<and> romsCount s1 \<le> 100 \<and>
            (csv_readable pf fs csvFilepath \<longrightarrow> catalog_ok s1)) \<and>
         (fst (dirs fs folder) = FR_OK \<and> readRomsSdcard fs folder st = Inr s2 \<longrightarrow>
            catalog_ok s2) \<and>
         (csv_readable pf fs ''/roms/roms.csv'' \<and> cmdNetwork pf fs st = Inr s3 \<longrightarrow>
            catalog_ok s3 \<and> (0 < romsCount s3 \<longrightarrow> page_in_range s3)) \<and>
         (fst (dirs fs (romsFolder st)) = FR_OK \<and> cmdCard fs st = Inr s4 \<longrightarrow>
            catalog_ok s4 \<and> (0 < romsCount s4 \<longrightarrow> page_in_range s4)) \<and>
         (catalog_ok s \<and> 0 < romsCount s \<and> page_in_range s \<longrightarrow>
            (\<exists>s'. cmdNext s = Inr s' \<and>
                  currentRomPage s' = min (currentRomPage s + 1) (maxRomPages s - 1)) \<and>
            (\<exists>s'. cmdPrev s = Inr s' \<and>
                  currentRomPage s' = max (currentRomPage s - 1) 0) \<and>
            (\<exists>s'. navigate cmds s = Inr s' \<and> catalog_ok s' \<and> romsCount s' = romsCount s \<and>
                  page_in_range s'))"
proof -
  have "sorted_by_filename (catalog s1) \<and> 0 \<le> romsCount s1 \<and> romsCount s1 \<le> 100"
    if "readRomsCsv pf fs csvFilepath st = Inr s1"
    using readRomsCsv_sorted [OF assms that] .
  moreover have "catalog_ok s1"
    if "csv_readable pf fs csvFilepath" "readRomsCsv pf fs csvFilepath st = Inr s1"
    using readRomsCsv_ok [OF assms that(2)] that(1) by (simp add: csv_readable_def)
  moreover have "catalog_ok s2"
    if "fst (dirs fs folder) = FR_OK" "readRomsSdcard fs folder st = Inr s2"
    using readRomsSdcard_ok [OF assms that(2,1)] .
  moreover note cmdNetwork_ok [OF assms, of pf fs s3] cmdCard_ok [OF assms, of fs s4]
    navigate_ok [of s cmds] cmdNext_ok [of s] cmdPrev_ok [of s]
  ultimately show ?thesis
    by blast
qed

theorem catalog_sorted_paged_and_navigable_witness:
  "listing (readRomsSdcard full_card ''/roms'' init_state) = Some (22, 2, 0, rom_names_sorted) \<and>
   catalog_ok (projr (readRomsSdcard full_card ''/roms'' init_state)) \<and>
   listing (cmdCard full_card init_state) = Some (22, 2, 0, rom_names_sorted) \<and>
   catalog_ok (projr (cmdCard full_card init_state)) \<and>
   page_in_range (projr (cmdCard full_card init_state)) \<and>
   listing (navigate [Next] (projr (cmdCard full_card init_state))) =
     Some (22, 2, 1, rom_names_sorted) \<and>
   listing (navigate [Next, Next] (projr (cmdCard full_card init_state))) =
     Some (22, 2, 1, rom_names_sorted) \<and>
   listing (navigate [Next, Prev] (projr (cmdCard full_card init_state))) =
     Some (22, 2, 0, rom_names_sorted) \<and>
   listing (navigate [Next, Next, Prev, Prev] (projr (cmdCard full_card init_state))) =
     Some (22, 2, 0, rom_names_sorted) \<and>
   catalog_ok (projr (navigate [Next, Next, Prev, Prev] (projr (cmdCard full_card init_state)))) \<and>
   page_in_range (projr (navigate [Next, Next, Prev, Prev] (projr (cmdCard full_card init_state)))) \<and>
   listing (readRomsCsv rp2040 full_card ''/roms/roms.csv'' configured) =
     Some (3, 1, 0, [''A.rom'', ''b.rom'', ''c.rom'']) \<and>
   catalog_ok (projr (readRomsCsv rp2040 full_card ''/roms/roms.csv'' configured)) \<and>
   listing (cmdNetwork rp2040 full_card configured) =
     Some (3, 1, 0, [''A.rom'', ''b.rom'', ''c.rom'']) \<and>
   catalog_ok (projr (cmdNetwork rp2040 full_card configured)) \<and>
   page_in_range (projr (cmdNetwork rp2040 full_card configured))"
proof -
  let ?r1 = "readRomsCsv rp2040 full_card ''/roms/roms.csv'' configured"
  let ?r2 = "readRomsSdcard full_card ''/roms'' init_state"
  let ?r3 = "cmdNetwork rp2040 full_card configured"
  let ?r4 = "cmdCard full_card init_state"
  let ?cmds = "[Next, Next, Prev, Prev]"
  have len: "length (roms init_state) = 100" "length (roms configured) = 100"
    by (simp_all add: configured_def init_state_def MAX_ROMS_def)
  have opens: "fst (dirs full_card ''/roms'') = FR_OK" "romsFolder init_state = ''/roms''"
    by (simp_all add: full_card_def init_state_def)
  have readable: "csv_readable rp2040 full_card ''/roms/roms.csv''"
    by code_simp
  have pages: "listing ?r4 = Some (22, 2, 0, rom_names_sorted)"
    "listing (navigate [Next] (projr ?r4)) = Some (22, 2, 1, rom_names_sorted)"
    "listing (navigate [Next, Next] (projr ?r4)) = Some (22, 2, 1, rom_names_sorted)"
    "listing (navigate [Next, Prev] (projr ?r4)) = Some (22, 2, 0, rom_names_sorted)"
    "listing (navigate ?cmds (projr ?r4)) = Some (22, 2, 0, rom_names_sorted)"
    using scanned_pages by (cases ?r4; simp)+
  note r1 = listing_Some [OF parsed]
  note r2 = listing_Some [OF scanned]
  note r3 = listing_Some [OF browsed]
  note r4 = listing_Some [OF pages(1)]
  note sd = catalog_sorted_paged_and_navigable [OF len(1), where fs = full_card
      and folder = "''/roms''" and ?s2.0 = "projr ?r2" and ?s4.0 = "projr ?r4"
      and s = "projr ?r4" and cmds = ?cmds]
  note net = catalog_sorted_paged_and_navigable [OF len(2), where pf = rp2040
      and fs = full_card and csvFilepath = "''/roms/roms.csv''" and ?s1.0 = "projr ?r1"
      and ?s3.0 = "projr ?r3"]
  from sd opens r2 have ok2: "catalog_ok (projr ?r2)"
    by simp
  from sd opens r4 have ok4: "catalog_ok (projr ?r4)" "page_in_range (projr ?r4)"
    by simp_all
  have pos: "0 < romsCount (projr ?r4)"
    using r4 by simp
  from sd ok4 pos obtain s' where s': "navigate ?cmds (projr ?r4) = Inr s'"
    "catalog_ok s'" "page_in_range s'"
    by blast
  from net readable r1 have ok1: "catalog_ok (projr ?r1)"
    by simp
  from net readable r3 have ok3: "catalog_ok (projr ?r3)" "page_in_range (projr ?r3)"
    by simp_all
  from scanned pages parsed browsed ok1 ok2 ok3 ok4 s' show ?thesis
    by simp
qed


end
